theory Spec2Isabelle
  imports Main "HOL-Library.Word" "HOL-Library.Sublist"
begin

unbundle bit_operations_syntax

section \<open>Go values, run-time panics and C integers\<close>

text \<open>
  The wrapper in \<^verbatim>\<open>theora.go\<close> keeps every libtheora structure behind a C pointer
  (\<^verbatim>\<open>fValue\<close>) that \<^verbatim>\<open>Done\<close> frees and sets to \<^verbatim>\<open>nil\<close>, and it keeps the ogg stream
  behind an interface value that \<^verbatim>\<open>Close\<close> sets to \<^verbatim>\<open>nil\<close>.  Go turns a field access
  through a nil pointer, a method call on a nil interface, a slice index out of range and
  a negative length given to \<^verbatim>\<open>make\<close> into a run-time panic.  A method of the model
  therefore returns \<open>fault + 'a\<close>: \<open>Inl\<close> is the panic, \<open>Inr\<close> the normal return.

  Go's \<^verbatim>\<open>int\<close> is modelled by \<open>int\<close>; the conversions to \<^verbatim>\<open>uint32\<close> and to \<^verbatim>\<open>C.int\<close>
  that the source writes are 32-bit words, so their truncation is part of the model.
\<close>

datatype fault =
    NilDereference
  | IndexOutOfRange
  | MakeSliceLenOutOfRange
  | ExternalPanic

type_synonym C_int = "32 word"
type_synonym uint32 = "32 word"
type_synonym byte = "8 word"

definition and_then :: "fault + 'a \<Rightarrow> ('a \<Rightarrow> fault + 'b) \<Rightarrow> fault + 'b" where
  "and_then m f = (case m of Inl e \<Rightarrow> Inl e | Inr x \<Rightarrow> f x)"

definition deref :: "'a option \<Rightarrow> fault + 'a" where
  "deref p = (case p of None \<Rightarrow> Inl NilDereference | Some x \<Rightarrow> Inr x)"

section \<open>TheoraInfo: the boolean accessors\<close>

text \<open>
  The three flag fields of the C structure \<^verbatim>\<open>theora_info\<close> that the boolean accessors
  touch.  Each is a C \<^verbatim>\<open>int\<close>; the getters compare it with zero as a signed number.
\<close>

record theora_info =
  dropframes_p :: C_int
  keyframe_auto_p :: C_int
  quick_p :: C_int

record TheoraInfo =
  fValue :: "theora_info option"

definition GetDropFrames :: "TheoraInfo \<Rightarrow> fault + bool" where
  "GetDropFrames v = and_then (deref (fValue v)) (\<lambda>c. Inr (0 <s dropframes_p c))"

definition GetKeyframeAuto :: "TheoraInfo \<Rightarrow> fault + bool" where
  "GetKeyframeAuto v = and_then (deref (fValue v)) (\<lambda>c. Inr (0 <s keyframe_auto_p c))"

definition GetQuick :: "TheoraInfo \<Rightarrow> fault + bool" where
  "GetQuick v = and_then (deref (fValue v)) (\<lambda>c. Inr (0 <s quick_p c))"

definition SetDropFrames :: "bool \<Rightarrow> TheoraInfo \<Rightarrow> fault + TheoraInfo" where
  "SetDropFrames AValue v =
     (if AValue
      then and_then (deref (fValue v)) (\<lambda>c. Inr (v\<lparr>fValue := Some (c\<lparr>dropframes_p := 0\<rparr>)\<rparr>))
      else and_then (deref (fValue v)) (\<lambda>c. Inr (v\<lparr>fValue := Some (c\<lparr>dropframes_p := 1\<rparr>)\<rparr>)))"

definition SetKeyframeAuto :: "bool \<Rightarrow> TheoraInfo \<Rightarrow> fault + TheoraInfo" where
  "SetKeyframeAuto AValue v =
     (if AValue
      then and_then (deref (fValue v)) (\<lambda>c. Inr (v\<lparr>fValue := Some (c\<lparr>keyframe_auto_p := 0\<rparr>)\<rparr>))
      else and_then (deref (fValue v)) (\<lambda>c. Inr (v\<lparr>fValue := Some (c\<lparr>keyframe_auto_p := 1\<rparr>)\<rparr>)))"

definition SetQuick :: "bool \<Rightarrow> TheoraInfo \<Rightarrow> fault + TheoraInfo" where
  "SetQuick AValue v =
     (if AValue
      then and_then (deref (fValue v)) (\<lambda>c. Inr (v\<lparr>fValue := Some (c\<lparr>quick_p := 1\<rparr>)\<rparr>))
      else and_then (deref (fValue v)) (\<lambda>c. Inr (v\<lparr>fValue := Some (c\<lparr>quick_p := 0\<rparr>)\<rparr>)))"

section \<open>The encoder session and its external collaborators\<close>

text \<open>
  \<^verbatim>\<open>TheoraEncoder\<close> drives two libraries that are not part of this package: libtheora
  (through cgo) and the \<^verbatim>\<open>googg\<close> package (\<^verbatim>\<open>OGG.NewPacket\<close>, the stream methods
  \<^verbatim>\<open>SavePacketToStream\<close>, \<^verbatim>\<open>PacketIn\<close>, \<^verbatim>\<open>PagesFlushToStream\<close>, \<^verbatim>\<open>Done\<close>).  The model
  records every call that crosses this boundary, in order, and takes the behaviour of the
  two libraries as a parameter: a function from the history of calls, the current one
  last, to the status the call returns.  For libtheora this is the C return value; for
  \<^verbatim>\<open>googg\<close> status 0 stands for a nil \<^verbatim>\<open>error\<close> and any other value for the error it
  returns.  The theorems hold for every such function.

  An ogg packet is the buffer an engine call fills; its content is named by what
  filled it.
\<close>

type_synonym handle = nat

datatype payload =
    Blank
  | IdentificationHeader
  | CommentHeader
  | SetupHeader
  | FrameData

datatype ext_call =
    OGG_NewPacket
  | theora_encode_header
  | theora_encode_comment handle
  | theora_encode_tables
  | theora_encode_packetout C_int
  | OGG_SavePacketToStream payload
  | OGG_PacketIn payload
  | OGG_PagesFlushToStream
  | OGG_Done

type_synonym world = "ext_call list"
type_synonym externals = "ext_call list \<Rightarrow> int"

datatype error =
    errTheoraException int
  | ETheoraEncCompletedException
  | ETheoraEncNotReadyException
  | OGGError int

record TheoraEncoder =
  fState :: "handle option"
  foggs :: "handle option"
  fwriter :: handle

definition ask :: "externals \<Rightarrow> ext_call \<Rightarrow> world \<Rightarrow> int \<times> world" where
  "ask ext c w = (ext (w @ [c]), w @ [c])"

definition ogg_error :: "int \<Rightarrow> error option" where
  "ogg_error R = (if R = 0 then None else Some (OGGError R))"

text \<open>A method call on the stream interface \<^verbatim>\<open>v.foggs\<close>; it panics when the interface is nil.\<close>

definition foggs_call :: "externals \<Rightarrow> TheoraEncoder \<Rightarrow> ext_call \<Rightarrow> world
    \<Rightarrow> fault + (error option \<times> world)" where
  "foggs_call ext v c w =
     and_then (deref (foggs v)) (\<lambda>_. case ask ext c w of (R, w') \<Rightarrow> Inr (ogg_error R, w'))"




definition PacketOut :: "externals \<Rightarrow> bool \<Rightarrow> payload \<Rightarrow> TheoraEncoder \<Rightarrow> world
    \<Rightarrow> fault + (error option \<times> payload \<times> world)" where
  "PacketOut ext last_p op v w =
     (let lp = (if last_p then 1 else 0) in
      and_then (deref (fState v)) (\<lambda>_. case ask ext (theora_encode_packetout lp) w of (R, w') \<Rightarrow>
        if R = 1 then Inr (None, FrameData, w')
        else if R = - 1 then Inr (Some ETheoraEncCompletedException, op, w')
        else if R = 0 then Inr (Some ETheoraEncNotReadyException, op, w')
        else Inr (Some (errTheoraException R), op, w')))"


definition Flush :: "externals \<Rightarrow> TheoraEncoder \<Rightarrow> world \<Rightarrow> fault + (error option \<times> world)" where
  "Flush ext v w = foggs_call ext v OGG_PagesFlushToStream w"

definition Close :: "externals \<Rightarrow> TheoraEncoder \<Rightarrow> world
    \<Rightarrow> fault + (error option \<times> TheoraEncoder \<times> world)" where
  "Close ext v w =
     and_then (Flush ext v w) (\<lambda>(err, w).
       if err \<noteq> None then Inr (err, v, w)
       else if foggs v \<noteq> None
         then (case ask ext OGG_Done w of (_, w) \<Rightarrow> Inr (None, v\<lparr>foggs := None\<rparr>, w))
         else Inr (None, v, w))"




section \<open>The raster to planar converter\<close>

text \<open>
  \<^verbatim>\<open>ConvertFromRasterImage\<close> uses three things of Go's standard library: the subsampling
  ratios of package \<^verbatim>\<open>image\<close>, the bounds of the image, and the pixel at a coordinate.
  The closure \<^verbatim>\<open>nrgb\<close> passes every pixel through \<^verbatim>\<open>color.NRGBAModel.Convert\<close>; the field
  \<open>At\<close> of the model's image is the pixel after this conversion, a non-premultiplied
  colour with 8-bit channels.  \<open>At\<close> is defined at every coordinate, as Go's \<^verbatim>\<open>At\<close> is.
\<close>

text \<open>
  \<^verbatim>\<open>image.YCbCrSubsampleRatio\<close> is an integer type with six named constants, numbered
  from zero in this order.
\<close>

type_synonym YCbCrSubsampleRatio = int

definition YCbCrSubsampleRatio444 :: YCbCrSubsampleRatio where
  "YCbCrSubsampleRatio444 = 0"

definition YCbCrSubsampleRatio422 :: YCbCrSubsampleRatio where
  "YCbCrSubsampleRatio422 = 1"

definition YCbCrSubsampleRatio420 :: YCbCrSubsampleRatio where
  "YCbCrSubsampleRatio420 = 2"




record Rectangle =
  MinX :: int
  MinY :: int
  MaxX :: int
  MaxY :: int

definition Dx :: "Rectangle \<Rightarrow> int" where
  "Dx r = MaxX r - MinX r"

definition Dy :: "Rectangle \<Rightarrow> int" where
  "Dy r = MaxY r - MinY r"

datatype NRGBA = NRGBA byte byte byte byte

record Image =
  Bounds :: Rectangle
  At :: "int \<Rightarrow> int \<Rightarrow> NRGBA"

text \<open>
  The C structure \<^verbatim>\<open>yuv_buffer\<close>: six C \<^verbatim>\<open>int\<close> fields and the three plane pointers,
  which are addresses obtained from \<^verbatim>\<open>OGG.Ptr\<close>.
\<close>

record yuv_buffer =
  y_width :: C_int
  y_height :: C_int
  y_stride :: C_int
  uv_width :: C_int
  uv_height :: C_int
  uv_stride :: C_int
  y_ptr :: nat
  u_ptr :: nat
  v_ptr :: nat

record TheoraYUVbuffer =
  fValue_yuv :: "yuv_buffer option"
  fyData :: "byte list"
  fuData :: "byte list"
  fvData :: "byte list"
  fOwnData :: bool

text \<open>
  \<^verbatim>\<open>NewTheoraYUVbuffer\<close>, when the allocation succeeds: the C structure is zeroed by
  \<^verbatim>\<open>calloc\<close>, the slices are nil and the buffer does not own its data.
\<close>

definition NewTheoraYUVbuffer :: TheoraYUVbuffer where
  "NewTheoraYUVbuffer =
     \<lparr>fValue_yuv = Some \<lparr>y_width = 0, y_height = 0, y_stride = 0,
                          uv_width = 0, uv_height = 0, uv_stride = 0,
                          y_ptr = 0, u_ptr = 0, v_ptr = 0\<rparr>,
      fyData = [], fuData = [], fvData = [], fOwnData = False\<rparr>"

definition GetYWidth :: "TheoraYUVbuffer \<Rightarrow> fault + int" where
  "GetYWidth v = and_then (deref (fValue_yuv v)) (\<lambda>c. Inr (sint (y_width c)))"

definition SetYWidth :: "int \<Rightarrow> TheoraYUVbuffer \<Rightarrow> fault + TheoraYUVbuffer" where
  "SetYWidth val v =
     and_then (deref (fValue_yuv v)) (\<lambda>c. Inr (v\<lparr>fValue_yuv := Some (c\<lparr>y_width := word_of_int val\<rparr>)\<rparr>))"

definition GetYHeight :: "TheoraYUVbuffer \<Rightarrow> fault + int" where
  "GetYHeight v = and_then (deref (fValue_yuv v)) (\<lambda>c. Inr (sint (y_height c)))"

definition SetYHeight :: "int \<Rightarrow> TheoraYUVbuffer \<Rightarrow> fault + TheoraYUVbuffer" where
  "SetYHeight val v =
     and_then (deref (fValue_yuv v)) (\<lambda>c. Inr (v\<lparr>fValue_yuv := Some (c\<lparr>y_height := word_of_int val\<rparr>)\<rparr>))"

definition GetYStride :: "TheoraYUVbuffer \<Rightarrow> fault + int" where
  "GetYStride v = and_then (deref (fValue_yuv v)) (\<lambda>c. Inr (sint (y_stride c)))"

definition SetYStride :: "int \<Rightarrow> TheoraYUVbuffer \<Rightarrow> fault + TheoraYUVbuffer" where
  "SetYStride val v =
     and_then (deref (fValue_yuv v)) (\<lambda>c. Inr (v\<lparr>fValue_yuv := Some (c\<lparr>y_stride := word_of_int val\<rparr>)\<rparr>))"

definition GetUVWidth :: "TheoraYUVbuffer \<Rightarrow> fault + int" where
  "GetUVWidth v = and_then (deref (fValue_yuv v)) (\<lambda>c. Inr (sint (uv_width c)))"

definition SetUVWidth :: "int \<Rightarrow> TheoraYUVbuffer \<Rightarrow> fault + TheoraYUVbuffer" where
  "SetUVWidth val v =
     and_then (deref (fValue_yuv v)) (\<lambda>c. Inr (v\<lparr>fValue_yuv := Some (c\<lparr>uv_width := word_of_int val\<rparr>)\<rparr>))"

definition GetUVHeight :: "TheoraYUVbuffer \<Rightarrow> fault + int" where
  "GetUVHeight v = and_then (deref (fValue_yuv v)) (\<lambda>c. Inr (sint (uv_height c)))"

definition SetUVHeight :: "int \<Rightarrow> TheoraYUVbuffer \<Rightarrow> fault + TheoraYUVbuffer" where
  "SetUVHeight val v =
     and_then (deref (fValue_yuv v)) (\<lambda>c. Inr (v\<lparr>fValue_yuv := Some (c\<lparr>uv_height := word_of_int val\<rparr>)\<rparr>))"

definition GetUVStride :: "TheoraYUVbuffer \<Rightarrow> fault + int" where
  "GetUVStride v = and_then (deref (fValue_yuv v)) (\<lambda>c. Inr (sint (uv_stride c)))"

definition SetUVStride :: "int \<Rightarrow> TheoraYUVbuffer \<Rightarrow> fault + TheoraYUVbuffer" where
  "SetUVStride val v =
     and_then (deref (fValue_yuv v)) (\<lambda>c. Inr (v\<lparr>fValue_yuv := Some (c\<lparr>uv_stride := word_of_int val\<rparr>)\<rparr>))"

text \<open>
  \<^verbatim>\<open>OGG.Ptr\<close> belongs to the \<^verbatim>\<open>googg\<close> package.  It is a parameter of the model: given
  the slice, it returns an address or panics.
\<close>

type_synonym ptr_fun = "byte list \<Rightarrow> fault + nat"

definition SetYData :: "ptr_fun \<Rightarrow> byte list \<Rightarrow> TheoraYUVbuffer \<Rightarrow> fault + TheoraYUVbuffer" where
  "SetYData Ptr val v =
     (let v = v\<lparr>fyData := val\<rparr> in
      and_then (Ptr (drop 0 (fyData v))) (\<lambda>p.
      and_then (deref (fValue_yuv v)) (\<lambda>c. Inr (v\<lparr>fValue_yuv := Some (c\<lparr>y_ptr := p\<rparr>)\<rparr>))))"

definition SetUData :: "ptr_fun \<Rightarrow> byte list \<Rightarrow> TheoraYUVbuffer \<Rightarrow> fault + TheoraYUVbuffer" where
  "SetUData Ptr val v =
     (let v = v\<lparr>fuData := val\<rparr> in
      and_then (Ptr (drop 0 (fuData v))) (\<lambda>p.
      and_then (deref (fValue_yuv v)) (\<lambda>c. Inr (v\<lparr>fValue_yuv := Some (c\<lparr>u_ptr := p\<rparr>)\<rparr>))))"

definition SetVData :: "ptr_fun \<Rightarrow> byte list \<Rightarrow> TheoraYUVbuffer \<Rightarrow> fault + TheoraYUVbuffer" where
  "SetVData Ptr val v =
     (let v = v\<lparr>fvData := val\<rparr> in
      and_then (Ptr (drop 0 (fvData v))) (\<lambda>p.
      and_then (deref (fValue_yuv v)) (\<lambda>c. Inr (v\<lparr>fValue_yuv := Some (c\<lparr>v_ptr := p\<rparr>)\<rparr>))))"

subsection \<open>Slices\<close>

text \<open>
  \<^verbatim>\<open>make([]byte, n)\<close> panics on a negative length and otherwise gives \<open>n\<close> zero bytes.
  An assignment to a slice element panics when the index is out of range.
\<close>

definition make_bytes :: "int \<Rightarrow> fault + byte list" where
  "make_bytes n = (if n < 0 then Inl MakeSliceLenOutOfRange else Inr (replicate (nat n) 0))"

definition store :: "byte list \<Rightarrow> int \<Rightarrow> byte \<Rightarrow> fault + byte list" where
  "store xs i b =
     (if 0 \<le> i \<and> i < int (length xs) then Inr (xs[nat i := b]) else Inl IndexOutOfRange)"

subsection \<open>The closures and the colour matrix\<close>

fun nrgb :: "NRGBA \<Rightarrow> uint32 \<times> uint32 \<times> uint32" where
  "nrgb (NRGBA r g b a) = (ucast r, ucast g, ucast b)"

definition clamp :: "uint32 \<Rightarrow> byte" where
  "clamp x = (if x > 255 then 255 else ucast x)"

definition booltoint :: "bool \<Rightarrow> int" where
  "booltoint b = (if b then 1 else 0)"

text \<open>
  The three expressions of the colour matrix, which the source writes out at every use:
  the luma of a pixel, and its contributions to the U and to the V sample before the
  division by the matrix constant.  All arithmetic is that of \<^verbatim>\<open>uint32\<close>.
\<close>

definition luma :: "uint32 \<Rightarrow> uint32 \<Rightarrow> uint32 \<Rightarrow> uint32" where
  "luma r g b = (65481 * r + 128553 * g + 24966 * b + 4207500) div 255000"

definition cb_term :: "uint32 \<Rightarrow> uint32 \<Rightarrow> uint32 \<Rightarrow> uint32" where
  "cb_term r g b = 29032005 - 33488 * r - 65744 * g + 99232 * b"

definition cr_term :: "uint32 \<Rightarrow> uint32 \<Rightarrow> uint32 \<Rightarrow> uint32" where
  "cr_term r g b = 157024 * r - 131488 * g - 25536 * b + 45940035"

subsection \<open>Loops\<close>

text \<open>
  The source's loops all have the shape \<^verbatim>\<open>for i < n { body; i += step }\<close> with step 1 or
  2; \<open>for_loop\<close> is this loop, and a panic of the body ends it.  The test of the step
  is always true at the steps the source uses; it is what makes the recursion
  terminate for every argument.  The loop state is the three plane slices and, for
  the claims about sampling, the list of coordinates passed to \<^verbatim>\<open>aData.At\<close> so far.
\<close>

record planes =
  yuv_y :: "byte list"
  yuv_u :: "byte list"
  yuv_v :: "byte list"
  sampled :: "(int \<times> int) list"

function for_loop :: "int \<Rightarrow> int \<Rightarrow> int \<Rightarrow> (int \<Rightarrow> 's \<Rightarrow> fault + 's) \<Rightarrow> 's \<Rightarrow> fault + 's" where
  "for_loop step n i body s =
     (if i < n \<and> 0 < step
      then (case body i s of Inl e \<Rightarrow> Inl e | Inr s' \<Rightarrow> for_loop step n (i + step) body s')
      else Inr s)"
  by pat_completeness auto
termination
  by (relation "measure (\<lambda>(step, n, i, body, s). nat (n - i))") auto

definition cell420 :: "Image \<Rightarrow> TheoraYUVbuffer \<Rightarrow> int \<Rightarrow> int \<Rightarrow> int \<Rightarrow> int \<Rightarrow> int
    \<Rightarrow> planes \<Rightarrow> fault + planes" where
  "cell420 aData v w yuv_w y y1 x st =
     (let x1 = x + booltoint (x + 1 < w) in
      case nrgb (At aData x y) of (r0, g0, b0) \<Rightarrow>
      case nrgb (At aData x1 y) of (r1, g1, b1) \<Rightarrow>
      case nrgb (At aData x y1) of (r2, g2, b2) \<Rightarrow>
      case nrgb (At aData x1 y1) of (r3, g3, b3) \<Rightarrow>
      and_then (store (yuv_y st) (x + y * yuv_w) (clamp (luma r0 g0 b0))) (\<lambda>yy.
      and_then (store yy (x1 + y * yuv_w) (clamp (luma r1 g1 b1))) (\<lambda>yy.
      and_then (store yy (x + y1 * yuv_w) (clamp (luma r2 g2 b2))) (\<lambda>yy.
      and_then (store yy (x1 + y1 * yuv_w) (clamp (luma r3 g3 b3))) (\<lambda>yy.
      and_then (GetUVStride v) (\<lambda>uvs.
      and_then (store (yuv_u st) (drop_bit 1 x + drop_bit 1 y * uvs)
                 (clamp ((cb_term r0 g0 b0 div 4 + cb_term r1 g1 b1 div 4
                          + cb_term r2 g2 b2 div 4 + cb_term r3 g3 b3 div 4) div 225930))) (\<lambda>uu.
      and_then (GetUVStride v) (\<lambda>uvs.
      and_then (store (yuv_v st) (drop_bit 1 x + drop_bit 1 y * uvs)
                 (clamp ((cr_term r0 g0 b0 div 4 + cr_term r1 g1 b1 div 4
                          + cr_term r2 g2 b2 div 4 + cr_term r3 g3 b3 div 4) div 357510))) (\<lambda>vv.
      Inr \<lparr>yuv_y = yy, yuv_u = uu, yuv_v = vv,
           sampled = sampled st @ [(x, y), (x1, y), (x, y1), (x1, y1)]\<rparr>)))))))))"

definition cell444 :: "Image \<Rightarrow> int \<Rightarrow> int \<Rightarrow> int \<Rightarrow> planes \<Rightarrow> fault + planes" where
  "cell444 aData yuv_w y x st =
     (case nrgb (At aData x y) of (r0, g0, b0) \<Rightarrow>
      and_then (store (yuv_y st) (x + y * yuv_w) (clamp (luma r0 g0 b0))) (\<lambda>yy.
      and_then (store (yuv_u st) (x + y * yuv_w) (clamp (cb_term r0 g0 b0 div 225930))) (\<lambda>uu.
      and_then (store (yuv_v st) (x + y * yuv_w) (clamp (cr_term r0 g0 b0 div 357510))) (\<lambda>vv.
      Inr \<lparr>yuv_y = yy, yuv_u = uu, yuv_v = vv, sampled = sampled st @ [(x, y)]\<rparr>))))"

definition cell422 :: "Image \<Rightarrow> TheoraYUVbuffer \<Rightarrow> int \<Rightarrow> int \<Rightarrow> int \<Rightarrow> int
    \<Rightarrow> planes \<Rightarrow> fault + planes" where
  "cell422 aData v w yuv_w y x st =
     (let x1 = x + booltoint (x + 1 < w) in
      case nrgb (At aData x y) of (r0, g0, b0) \<Rightarrow>
      case nrgb (At aData x1 y) of (r1, g1, b1) \<Rightarrow>
      and_then (store (yuv_y st) (x + y * yuv_w) (clamp (luma r0 g0 b0))) (\<lambda>yy.
      and_then (store yy (x1 + y * yuv_w) (clamp (luma r1 g1 b1))) (\<lambda>yy.
      and_then (GetUVStride v) (\<lambda>uvs.
      and_then (store (yuv_u st) (drop_bit 1 x + y * uvs)
                 (clamp ((cb_term r0 g0 b0 div 2 + cb_term r1 g1 b1 div 2) div 225930))) (\<lambda>uu.
      and_then (GetUVStride v) (\<lambda>uvs.
      and_then (store (yuv_v st) (drop_bit 1 x + y * uvs)
                 (clamp ((cr_term r0 g0 b0 div 2 + cr_term r1 g1 b1 div 2) div 357510))) (\<lambda>vv.
      Inr \<lparr>yuv_y = yy, yuv_u = uu, yuv_v = vv,
           sampled = sampled st @ [(x, y), (x1, y)]\<rparr>)))))))"

definition convert420 :: "Image \<Rightarrow> TheoraYUVbuffer \<Rightarrow> int \<Rightarrow> int \<Rightarrow> int \<Rightarrow> planes
    \<Rightarrow> fault + planes" where
  "convert420 aData v w h yuv_w st =
     for_loop 2 h 0
       (\<lambda>y st. let y1 = y + booltoint (y + 1 < h)
                in for_loop 2 w 0 (cell420 aData v w yuv_w y y1) st) st"

definition convert444 :: "Image \<Rightarrow> int \<Rightarrow> int \<Rightarrow> int \<Rightarrow> planes \<Rightarrow> fault + planes" where
  "convert444 aData w h yuv_w st =
     for_loop 1 h 0 (\<lambda>y st. for_loop 1 w 0 (cell444 aData yuv_w y) st) st"

definition convert422 :: "Image \<Rightarrow> TheoraYUVbuffer \<Rightarrow> int \<Rightarrow> int \<Rightarrow> int \<Rightarrow> planes
    \<Rightarrow> fault + planes" where
  "convert422 aData v w h yuv_w st =
     for_loop 1 h 0 (\<lambda>y st. for_loop 2 w 0 (cell422 aData v w yuv_w y) st) st"

subsection \<open>ConvertFromRasterImage\<close>

text \<open>
  The method returns its boolean, the buffer as it has left it, and the coordinates it
  has sampled.  The local slices \<^verbatim>\<open>yuv_y\<close>, \<^verbatim>\<open>yuv_u\<close>, \<^verbatim>\<open>yuv_v\<close> share their storage with
  \<^verbatim>\<open>v.fyData\<close>, \<^verbatim>\<open>v.fuData\<close>, \<^verbatim>\<open>v.fvData\<close>, so the buffer returned holds the planes as the
  loops have left them.
\<close>

definition ConvertFromRasterImage :: "ptr_fun \<Rightarrow> YCbCrSubsampleRatio \<Rightarrow> Image \<Rightarrow> TheoraYUVbuffer
    \<Rightarrow> fault + (bool \<times> TheoraYUVbuffer \<times> (int \<times> int) list)" where
  "ConvertFromRasterImage Ptr chroma_format aData v =
     (if \<not> (chroma_format = YCbCrSubsampleRatio444 \<or>
             chroma_format = YCbCrSubsampleRatio422 \<or>
             chroma_format = YCbCrSubsampleRatio420)
      then Inr (False, v, [])
      else
        let h = Dy (Bounds aData);
            w = Dx (Bounds aData);
            yuv_w = uint ((word_of_int (w + 15) :: uint32) AND NOT 0xf);
            yuv_h = uint ((word_of_int (h + 15) :: uint32) AND NOT 0xf)
        in
        and_then (SetYWidth yuv_w v) (\<lambda>v.
        and_then (SetYHeight yuv_h v) (\<lambda>v.
        and_then (SetYStride yuv_w v) (\<lambda>v.
        and_then (if chroma_format = YCbCrSubsampleRatio444
                  then SetUVWidth yuv_w v
                  else SetUVWidth (drop_bit 1 yuv_w) v) (\<lambda>v.
        and_then (GetUVWidth v) (\<lambda>uvw.
        and_then (SetUVStride uvw v) (\<lambda>v.
        and_then (if chroma_format = YCbCrSubsampleRatio420
                  then SetUVHeight (drop_bit 1 yuv_h) v
                  else SetUVHeight yuv_h v) (\<lambda>v.
        and_then (GetYStride v) (\<lambda>ys.
        and_then (GetYHeight v) (\<lambda>yh.
        and_then (make_bytes (ys * yh)) (\<lambda>yuv_y.
        and_then (GetUVStride v) (\<lambda>uvs.
        and_then (GetUVHeight v) (\<lambda>uvh.
        and_then (make_bytes (uvs * uvh)) (\<lambda>yuv_u.
        and_then (GetUVStride v) (\<lambda>uvs.
        and_then (GetUVHeight v) (\<lambda>uvh.
        and_then (make_bytes (uvs * uvh)) (\<lambda>yuv_v.
        and_then (SetYData Ptr yuv_y v) (\<lambda>v.
        and_then (SetUData Ptr yuv_u v) (\<lambda>v.
        and_then (SetVData Ptr yuv_v v) (\<lambda>v.
        and_then
          (let st = \<lparr>yuv_y = yuv_y, yuv_u = yuv_u, yuv_v = yuv_v, sampled = []\<rparr> in
           if chroma_format = YCbCrSubsampleRatio420 then convert420 aData v w h yuv_w st
           else if chroma_format = YCbCrSubsampleRatio444 then convert444 aData w h yuv_w st
           else convert422 aData v w h yuv_w st) (\<lambda>st.
        Inr (True, v\<lparr>fyData := planes.yuv_y st, fuData := planes.yuv_u st,
                       fvData := planes.yuv_v st\<rparr>, sampled st))))))))))))))))))))))"

section \<open>Vocabulary of the converter's specification\<close>

text \<open>
  The definitions of this section are not part of the program.  They say what the
  planes must hold after a conversion and which slice elements a loop has written, and
  the theorems relate the loops of the program to them.
\<close>

text \<open>The values the loop variable of \<^verbatim>\<open>for i < n { ...; i += step }\<close> takes, from \<open>i\<close> on.\<close>

definition iters :: "int \<Rightarrow> int \<Rightarrow> int \<Rightarrow> int set" where
  "iters step i n = {k. i \<le> k \<and> k < n \<and> step dvd (k - i)}"

text \<open>
  A slice \<open>p'\<close> is the slice \<open>p\<close> with the elements at the indices in \<open>S\<close> overwritten,
  index \<open>i\<close> by the value \<open>f i\<close>; the three planes and the sampling log of a loop state
  taken together.
\<close>

definition upd_rel :: "int set \<Rightarrow> (int \<Rightarrow> byte) \<Rightarrow> byte list \<Rightarrow> byte list \<Rightarrow> bool" where
  "upd_rel S f p p' \<longleftrightarrow>
     length p' = length p \<and>
     (\<forall>i. 0 \<le> i \<and> i < int (length p) \<longrightarrow> p' ! nat i = (if i \<in> S then f i else p ! nat i))"

definition frame_rel :: "int set \<Rightarrow> int set \<Rightarrow> (int \<Rightarrow> byte) \<Rightarrow> (int \<Rightarrow> byte) \<Rightarrow> (int \<Rightarrow> byte)
    \<Rightarrow> (int \<times> int) set \<Rightarrow> planes \<Rightarrow> planes \<Rightarrow> bool" where
  "frame_rel SY SC fy fu fv A s t \<longleftrightarrow>
     upd_rel SY fy (yuv_y s) (yuv_y t) \<and>
     upd_rel SC fu (yuv_u s) (yuv_u t) \<and>
     upd_rel SC fv (yuv_v s) (yuv_v t) \<and>
     (\<exists>more. sampled t = sampled s @ more \<and> set more \<subseteq> A)"

definition lens :: "planes \<Rightarrow> nat \<times> nat \<times> nat" where
  "lens s = (length (yuv_y s), length (yuv_u s), length (yuv_v s))"

text \<open>The coordinates inside the rectangle of width \<open>w\<close> and height \<open>h\<close> at the origin.\<close>

definition visible :: "int \<Rightarrow> int \<Rightarrow> (int \<times> int) set" where
  "visible w h = {(x, y). 0 \<le> x \<and> x < w \<and> 0 \<le> y \<and> y < h}"

text \<open>
  The luma byte of the pixel at a coordinate, and the pixel's contributions to the U and
  to the V sample, as the colour matrix of the source computes them.
\<close>

definition luma_at :: "Image \<Rightarrow> int \<Rightarrow> int \<Rightarrow> byte" where
  "luma_at aData x y = (case nrgb (At aData x y) of (r, g, b) \<Rightarrow> clamp (luma r g b))"

definition cb_at :: "Image \<Rightarrow> int \<Rightarrow> int \<Rightarrow> uint32" where
  "cb_at aData x y = (case nrgb (At aData x y) of (r, g, b) \<Rightarrow> cb_term r g b)"

definition cr_at :: "Image \<Rightarrow> int \<Rightarrow> int \<Rightarrow> uint32" where
  "cr_at aData x y = (case nrgb (At aData x y) of (r, g, b) \<Rightarrow> cr_term r g b)"

text \<open>
  The chroma bytes at chroma coordinate \<open>(c, r)\<close>.  At 4:2:0 the block of the four pixels
  at columns \<open>2c\<close>, \<open>x1\<close> and rows \<open>2r\<close>, \<open>y1\<close> contributes, where \<open>x1\<close> and \<open>y1\<close> are the next
  column and row, or the same one at the right and bottom edge; each contribution is
  divided by 4 and the four quotients are added.  At 4:2:2 the two pixels at columns
  \<open>2c\<close>, \<open>x1\<close> of row \<open>r\<close> contribute, each divided by 2.  At 4:4:4 the pixel at
  \<open>(c, r)\<close> alone contributes.
\<close>

definition U420_at :: "Image \<Rightarrow> int \<Rightarrow> int \<Rightarrow> int \<Rightarrow> int \<Rightarrow> byte" where
  "U420_at aData w h c r =
     (let x = 2 * c; y = 2 * r;
          x1 = x + booltoint (x + 1 < w); y1 = y + booltoint (y + 1 < h)
      in clamp ((cb_at aData x y div 4 + cb_at aData x1 y div 4
                 + cb_at aData x y1 div 4 + cb_at aData x1 y1 div 4) div 225930))"

definition V420_at :: "Image \<Rightarrow> int \<Rightarrow> int \<Rightarrow> int \<Rightarrow> int \<Rightarrow> byte" where
  "V420_at aData w h c r =
     (let x = 2 * c; y = 2 * r;
          x1 = x + booltoint (x + 1 < w); y1 = y + booltoint (y + 1 < h)
      in clamp ((cr_at aData x y div 4 + cr_at aData x1 y div 4
                 + cr_at aData x y1 div 4 + cr_at aData x1 y1 div 4) div 357510))"

definition U422_at :: "Image \<Rightarrow> int \<Rightarrow> int \<Rightarrow> int \<Rightarrow> byte" where
  "U422_at aData w c r =
     (let x = 2 * c; x1 = x + booltoint (x + 1 < w)
      in clamp ((cb_at aData x r div 2 + cb_at aData x1 r div 2) div 225930))"

definition V422_at :: "Image \<Rightarrow> int \<Rightarrow> int \<Rightarrow> int \<Rightarrow> byte" where
  "V422_at aData w c r =
     (let x = 2 * c; x1 = x + booltoint (x + 1 < w)
      in clamp ((cr_at aData x r div 2 + cr_at aData x1 r div 2) div 357510))"

definition U444_at :: "Image \<Rightarrow> int \<Rightarrow> int \<Rightarrow> byte" where
  "U444_at aData c r = clamp (cb_at aData c r div 225930)"

definition V444_at :: "Image \<Rightarrow> int \<Rightarrow> int \<Rightarrow> byte" where
  "V444_at aData c r = clamp (cr_at aData c r div 357510)"

text \<open>The luma indices one pass of the loop body writes, at 4:2:0 and at 4:2:2.\<close>

definition Y420_cell :: "int \<Rightarrow> int \<Rightarrow> int \<Rightarrow> int \<Rightarrow> int \<Rightarrow> int set" where
  "Y420_cell w h W y x =
     {x + y * W, x + booltoint (x + 1 < w) + y * W,
      x + (y + booltoint (y + 1 < h)) * W,
      x + booltoint (x + 1 < w) + (y + booltoint (y + 1 < h)) * W}"

definition Y422_cell :: "int \<Rightarrow> int \<Rightarrow> int \<Rightarrow> int \<Rightarrow> int set" where
  "Y422_cell w W y x = {x + y * W, x + booltoint (x + 1 < w) + y * W}"

text \<open>
  A plane of \<open>W\<close> columns and \<open>H\<close> rows, stored row by row, that holds \<open>f c r\<close> at the
  coordinates where \<open>vis c r\<close> and zero everywhere else.
\<close>

definition plane_is :: "byte list \<Rightarrow> int \<Rightarrow> int \<Rightarrow> (int \<Rightarrow> int \<Rightarrow> bool) \<Rightarrow> (int \<Rightarrow> int \<Rightarrow> byte) \<Rightarrow> bool" where
  "plane_is p W H vis f \<longleftrightarrow>
     int (length p) = W * H \<and>
     (\<forall>c r. 0 \<le> c \<and> c < W \<and> 0 \<le> r \<and> r < H \<longrightarrow>
        p ! nat (c + r * W) = (if vis c r then f c r else 0))"

text \<open>
  The claim's formula for a padded dimension, \<^verbatim>\<open>(n + 15) & ~15\<close>, on the integers; the
  formats the converter accepts; and the chroma plane's width and height for a luma plane
  of width \<open>W\<close> and height \<open>H\<close>.
\<close>

definition pad16 :: "int \<Rightarrow> int" where
  "pad16 n = (n + 15) AND NOT 15"

definition supported :: "YCbCrSubsampleRatio \<Rightarrow> bool" where
  "supported f \<longleftrightarrow>
     f = YCbCrSubsampleRatio444 \<or> f = YCbCrSubsampleRatio422 \<or> f = YCbCrSubsampleRatio420"

definition chroma_width :: "YCbCrSubsampleRatio \<Rightarrow> int \<Rightarrow> int" where
  "chroma_width f W = (if f = YCbCrSubsampleRatio444 then W else W div 2)"

definition chroma_height :: "YCbCrSubsampleRatio \<Rightarrow> int \<Rightarrow> int" where
  "chroma_height f H = (if f = YCbCrSubsampleRatio420 then H div 2 else H)"

text \<open>
  The luma coordinates and the chroma coordinates that the image covers, and the chroma
  bytes of each format.
\<close>

definition luma_visible :: "int \<Rightarrow> int \<Rightarrow> int \<Rightarrow> int \<Rightarrow> bool" where
  "luma_visible w h c r \<longleftrightarrow> c < w \<and> r < h"

definition chroma_visible :: "YCbCrSubsampleRatio \<Rightarrow> int \<Rightarrow> int \<Rightarrow> int \<Rightarrow> int \<Rightarrow> bool" where
  "chroma_visible f w h c r \<longleftrightarrow>
     (if f = YCbCrSubsampleRatio444 then c else 2 * c) < w \<and>
     (if f = YCbCrSubsampleRatio420 then 2 * r else r) < h"

definition U_at :: "YCbCrSubsampleRatio \<Rightarrow> Image \<Rightarrow> int \<Rightarrow> int \<Rightarrow> int \<Rightarrow> int \<Rightarrow> byte" where
  "U_at f aData w h c r =
     (if f = YCbCrSubsampleRatio420 then U420_at aData w h c r
      else if f = YCbCrSubsampleRatio444 then U444_at aData c r
      else U422_at aData w c r)"

definition V_at :: "YCbCrSubsampleRatio \<Rightarrow> Image \<Rightarrow> int \<Rightarrow> int \<Rightarrow> int \<Rightarrow> int \<Rightarrow> byte" where
  "V_at f aData w h c r =
     (if f = YCbCrSubsampleRatio420 then V420_at aData w h c r
      else if f = YCbCrSubsampleRatio444 then V444_at aData c r
      else V422_at aData w c r)"

text \<open>
  The images whose padded dimensions fit the C \<^verbatim>\<open>int\<close> fields of \<^verbatim>\<open>yuv_buffer\<close>: the
  bounds are a well-formed rectangle (\<^verbatim>\<open>Min\<close> not beyond \<^verbatim>\<open>Max\<close>) and each dimension plus
  15 is below \<open>2^31\<close>.  In this range no 64-bit operation of the source overflows either.
\<close>

definition in_range :: "Image \<Rightarrow> bool" where
  "in_range aData \<longleftrightarrow>
     0 \<le> Dx (Bounds aData) \<and> Dx (Bounds aData) + 15 < 2 ^ 31 \<and>
     0 \<le> Dy (Bounds aData) \<and> Dy (Bounds aData) + 15 < 2 ^ 31"

text \<open>
  A slice of zero bytes; the C structure after the converter has set its dimensions;
  the branch over the three loops; and the statement that \<^verbatim>\<open>OGG.Ptr\<close> returns on a slice.
\<close>

definition zeros :: "int \<Rightarrow> byte list" where
  "zeros n = replicate (nat n) 0"

definition sized :: "YCbCrSubsampleRatio \<Rightarrow> int \<Rightarrow> int \<Rightarrow> yuv_buffer \<Rightarrow> yuv_buffer" where
  "sized f W H c =
     c\<lparr>y_width := word_of_int W, y_height := word_of_int H, y_stride := word_of_int W,
       uv_width := word_of_int (chroma_width f W),
       uv_height := word_of_int (chroma_height f H),
       uv_stride := word_of_int (chroma_width f W)\<rparr>"

definition convert_loops :: "YCbCrSubsampleRatio \<Rightarrow> Image \<Rightarrow> TheoraYUVbuffer \<Rightarrow> int \<Rightarrow> int \<Rightarrow> int
    \<Rightarrow> planes \<Rightarrow> fault + planes" where
  "convert_loops f aData v w h W st =
     (if f = YCbCrSubsampleRatio420 then convert420 aData v w h W st
      else if f = YCbCrSubsampleRatio444 then convert444 aData w h W st
      else convert422 aData v w h W st)"

definition ptr_returns :: "ptr_fun \<Rightarrow> byte list \<Rightarrow> bool" where
  "ptr_returns Ptr xs \<longleftrightarrow> (\<exists>p. Ptr xs = Inr p)"

text \<open>
  The chroma bytes as the specification words them: at 4:2:0 the four contributions of a
  block are added and the sum is divided by 4, at 4:2:2 the two contributions are added
  and the sum is divided by 2, before the division by the matrix constant; at 4:4:4
  there is no averaging.  They are compared with the bytes the source computes.
\<close>

definition U420_spec_at :: "Image \<Rightarrow> int \<Rightarrow> int \<Rightarrow> int \<Rightarrow> int \<Rightarrow> byte" where
  "U420_spec_at aData w h c r =
     (let x = 2 * c; y = 2 * r;
          x1 = x + booltoint (x + 1 < w); y1 = y + booltoint (y + 1 < h)
      in clamp ((cb_at aData x y + cb_at aData x1 y
                 + cb_at aData x y1 + cb_at aData x1 y1) div 4 div 225930))"

definition V420_spec_at :: "Image \<Rightarrow> int \<Rightarrow> int \<Rightarrow> int \<Rightarrow> int \<Rightarrow> byte" where
  "V420_spec_at aData w h c r =
     (let x = 2 * c; y = 2 * r;
          x1 = x + booltoint (x + 1 < w); y1 = y + booltoint (y + 1 < h)
      in clamp ((cr_at aData x y + cr_at aData x1 y
                 + cr_at aData x y1 + cr_at aData x1 y1) div 4 div 357510))"

definition U422_spec_at :: "Image \<Rightarrow> int \<Rightarrow> int \<Rightarrow> int \<Rightarrow> byte" where
  "U422_spec_at aData w c r =
     (let x = 2 * c; x1 = x + booltoint (x + 1 < w)
      in clamp ((cb_at aData x r + cb_at aData x1 r) div 2 div 225930))"

definition V422_spec_at :: "Image \<Rightarrow> int \<Rightarrow> int \<Rightarrow> int \<Rightarrow> byte" where
  "V422_spec_at aData w c r =
     (let x = 2 * c; x1 = x + booltoint (x + 1 < w)
      in clamp ((cr_at aData x r + cr_at aData x1 r) div 2 div 357510))"

definition U_spec_at :: "YCbCrSubsampleRatio \<Rightarrow> Image \<Rightarrow> int \<Rightarrow> int \<Rightarrow> int \<Rightarrow> int \<Rightarrow> byte" where
  "U_spec_at f aData w h c r =
     (if f = YCbCrSubsampleRatio420 then U420_spec_at aData w h c r
      else if f = YCbCrSubsampleRatio444 then U444_at aData c r
      else U422_spec_at aData w c r)"

definition V_spec_at :: "YCbCrSubsampleRatio \<Rightarrow> Image \<Rightarrow> int \<Rightarrow> int \<Rightarrow> int \<Rightarrow> int \<Rightarrow> byte" where
  "V_spec_at f aData w h c r =
     (if f = YCbCrSubsampleRatio420 then V420_spec_at aData w h c r
      else if f = YCbCrSubsampleRatio444 then V444_at aData c r
      else V422_spec_at aData w c r)"

text \<open>
  The byte of the V plane at chroma coordinate \<open>(c, r)\<close> after a conversion that returned
  true, for a plane of the given stride.
\<close>

definition converted_V :: "fault + (bool \<times> TheoraYUVbuffer \<times> (int \<times> int) list) \<Rightarrow> int \<Rightarrow> int \<Rightarrow> int
    \<Rightarrow> byte option" where
  "converted_V res stride c r =
     (case res of
        Inr (True, v', log) \<Rightarrow> Some (fvData v' ! nat (c + r * stride))
      | _ \<Rightarrow> None)"

section \<open>Inputs of the examples\<close>

text \<open>
  An \<^verbatim>\<open>OGG.Ptr\<close> that returns on every slice; an image of one red pixel; and the image
  of the spec's scenario, 17 by 15 pixels of the opaque colour (255, 0, 0).
\<close>

definition returning_Ptr :: ptr_fun where
  "returning_Ptr xs = Inr 1"

definition red_pixel :: Image where
  "red_pixel = \<lparr>Bounds = \<lparr>MinX = 0, MinY = 0, MaxX = 1, MaxY = 1\<rparr>,
                At = (\<lambda>x y. NRGBA 255 0 0 255)\<rparr>"

definition red_17x15 :: Image where
  "red_17x15 = \<lparr>Bounds = \<lparr>MinX = 0, MinY = 0, MaxX = 17, MaxY = 15\<rparr>,
                At = (\<lambda>x y. NRGBA 255 0 0 255)\<rparr>"

text \<open>
  An image of 2 by 2 pixels: green 255 and blue 117 everywhere, except green 161 at the
  pixel (1, 1).
\<close>

definition green_block :: Image where
  "green_block = \<lparr>Bounds = \<lparr>MinX = 0, MinY = 0, MaxX = 2, MaxY = 2\<rparr>,
                  At = (\<lambda>x y. if x = 1 \<and> y = 1 then NRGBA 0 161 117 255
                               else NRGBA 0 255 117 255)\<rparr>"

section \<open>Basic facts\<close>

lemma and_then_Inr_iff:
  "and_then m f = Inr y \<longleftrightarrow> (\<exists>x. m = Inr x \<and> f x = Inr y)"
  by (cases m) (simp_all add: and_then_def)

lemma and_then_Inr [simp]: "and_then (Inr x) f = f x"
  by (simp add: and_then_def)

lemma and_then_Inl [simp]: "and_then (Inl e) f = Inl e"
  by (simp add: and_then_def)

lemma deref_Some [simp]: "deref (Some x) = Inr x"
  by (simp add: deref_def)

lemma deref_None [simp]: "deref None = Inl NilDereference"
  by (simp add: deref_def)

lemma deref_Inr_iff: "deref p = Inr x \<longleftrightarrow> p = Some x"
  by (cases p) simp_all

lemma ratio_distinct [simp]:
  "YCbCrSubsampleRatio444 \<noteq> YCbCrSubsampleRatio422"
  "YCbCrSubsampleRatio444 \<noteq> YCbCrSubsampleRatio420"
  "YCbCrSubsampleRatio422 \<noteq> YCbCrSubsampleRatio444"
  "YCbCrSubsampleRatio422 \<noteq> YCbCrSubsampleRatio420"
  "YCbCrSubsampleRatio420 \<noteq> YCbCrSubsampleRatio444"
  "YCbCrSubsampleRatio420 \<noteq> YCbCrSubsampleRatio422"
  by (simp_all add: YCbCrSubsampleRatio444_def YCbCrSubsampleRatio422_def
        YCbCrSubsampleRatio420_def)


lemma C_int_positive_1 [simp]: "(0 :: C_int) <s 1"
  by (simp add: word_sless_alt)

lemma C_int_positive_0 [simp]: "\<not> (0 :: C_int) <s 0"
  by (simp add: word_sless_alt)

section \<open>The boolean setters of TheoraInfo\<close>

lemma SetDropFrames_live:
  "SetDropFrames b \<lparr>fValue = Some c\<rparr> = Inr \<lparr>fValue = Some (c\<lparr>dropframes_p := if b then 0 else 1\<rparr>)\<rparr>"
  by (simp add: SetDropFrames_def)

lemma SetDropFrames_nil: "SetDropFrames b \<lparr>fValue = None\<rparr> = Inl NilDereference"
  by (simp add: SetDropFrames_def)

text \<open>
  Claim C9.  \<^verbatim>\<open>SetDropFrames\<close> inverts its argument: whenever \<^verbatim>\<open>SetDropFrames(b)\<close>
  returns, on any \<^verbatim>\<open>TheoraInfo\<close>, the field \<^verbatim>\<open>dropframes_p\<close> holds 0 if \<open>b\<close> is true and
  1 if \<open>b\<close> is false, and a following \<^verbatim>\<open>GetDropFrames()\<close> returns the negation of \<open>b\<close>.
  The setter returns on every \<^verbatim>\<open>TheoraInfo\<close> whose handle is allocated; on one whose
  handle is nil (after \<^verbatim>\<open>Done\<close>) it panics and there is no state after the call.
\<close>

theorem SetDropFrames_inverted:
  "(fValue v \<noteq> None \<longrightarrow> (\<exists>v'. SetDropFrames b v = Inr v'))
   \<and> (\<forall>v'. SetDropFrames b v = Inr v' \<longrightarrow>
        (\<exists>c'. fValue v' = Some c' \<and> dropframes_p c' = (if b then 0 else 1))
        \<and> GetDropFrames v' = Inr (\<not> b))"
  by (cases "fValue v")
     (auto simp: SetDropFrames_def GetDropFrames_def split: if_splits)

theorem SetDropFrames_inverted_witness:
  "SetDropFrames True \<lparr>fValue = Some \<lparr>dropframes_p = 7, keyframe_auto_p = 0, quick_p = 0\<rparr>\<rparr>
     = Inr \<lparr>fValue = Some \<lparr>dropframes_p = 0, keyframe_auto_p = 0, quick_p = 0\<rparr>\<rparr>
   \<and> GetDropFrames \<lparr>fValue = Some \<lparr>dropframes_p = 0, keyframe_auto_p = 0, quick_p = 0\<rparr>\<rparr>
     = Inr (\<not> True)"
proof -
  have run: "SetDropFrames True \<lparr>fValue = Some \<lparr>dropframes_p = 7, keyframe_auto_p = 0, quick_p = 0\<rparr>\<rparr>
     = Inr \<lparr>fValue = Some \<lparr>dropframes_p = 0, keyframe_auto_p = 0, quick_p = 0\<rparr>\<rparr>"
    by (simp add: SetDropFrames_def)
  from SetDropFrames_inverted
         [where v = "\<lparr>fValue = Some \<lparr>dropframes_p = 7, keyframe_auto_p = 0, quick_p = 0\<rparr>\<rparr>"
            and b = True]
       run
  show ?thesis by simp
qed

text \<open>
  Claim C10.  \<^verbatim>\<open>SetKeyframeAuto\<close> has the same inverted sense: whenever
  \<^verbatim>\<open>SetKeyframeAuto(b)\<close> returns, \<^verbatim>\<open>keyframe_auto_p\<close> is 0 if \<open>b\<close> is true and 1 if \<open>b\<close> is
  false, and \<^verbatim>\<open>GetKeyframeAuto()\<close> returns the negation of \<open>b\<close>.  \<^verbatim>\<open>SetQuick\<close> is not
  inverted: whenever \<^verbatim>\<open>SetQuick(b)\<close> returns, \<^verbatim>\<open>GetQuick()\<close> returns \<open>b\<close>.  Both setters
  return on every \<^verbatim>\<open>TheoraInfo\<close> whose handle is allocated.
\<close>

theorem SetKeyframeAuto_inverted_SetQuick_direct:
  "(fValue v \<noteq> None \<longrightarrow> (\<exists>v'. SetKeyframeAuto b v = Inr v') \<and> (\<exists>v'. SetQuick b v = Inr v'))
   \<and> (\<forall>v'. SetKeyframeAuto b v = Inr v' \<longrightarrow>
      (\<exists>c'. fValue v' = Some c' \<and> keyframe_auto_p c' = (if b then 0 else 1))
      \<and> GetKeyframeAuto v' = Inr (\<not> b))
   \<and> (\<forall>v'. SetQuick b v = Inr v' \<longrightarrow> GetQuick v' = Inr b)"
  by (cases "fValue v")
     (auto simp: SetKeyframeAuto_def GetKeyframeAuto_def SetQuick_def GetQuick_def
           split: if_splits)

theorem SetKeyframeAuto_inverted_SetQuick_direct_witness:
  "SetKeyframeAuto True \<lparr>fValue = Some \<lparr>dropframes_p = 0, keyframe_auto_p = 5, quick_p = 0\<rparr>\<rparr>
     = Inr \<lparr>fValue = Some \<lparr>dropframes_p = 0, keyframe_auto_p = 0, quick_p = 0\<rparr>\<rparr>
   \<and> GetKeyframeAuto \<lparr>fValue = Some \<lparr>dropframes_p = 0, keyframe_auto_p = 0, quick_p = 0\<rparr>\<rparr>
     = Inr (\<not> True)
   \<and> SetQuick True \<lparr>fValue = Some \<lparr>dropframes_p = 0, keyframe_auto_p = 5, quick_p = 0\<rparr>\<rparr>
     = Inr \<lparr>fValue = Some \<lparr>dropframes_p = 0, keyframe_auto_p = 5, quick_p = 1\<rparr>\<rparr>
   \<and> GetQuick \<lparr>fValue = Some \<lparr>dropframes_p = 0, keyframe_auto_p = 5, quick_p = 1\<rparr>\<rparr>
     = Inr True"
proof -
  have run1: "SetKeyframeAuto True \<lparr>fValue = Some \<lparr>dropframes_p = 0, keyframe_auto_p = 5, quick_p = 0\<rparr>\<rparr>
     = Inr \<lparr>fValue = Some \<lparr>dropframes_p = 0, keyframe_auto_p = 0, quick_p = 0\<rparr>\<rparr>"
    by (simp add: SetKeyframeAuto_def)
  have run2: "SetQuick True \<lparr>fValue = Some \<lparr>dropframes_p = 0, keyframe_auto_p = 5, quick_p = 0\<rparr>\<rparr>
     = Inr \<lparr>fValue = Some \<lparr>dropframes_p = 0, keyframe_auto_p = 5, quick_p = 1\<rparr>\<rparr>"
    by (simp add: SetQuick_def)
  from SetKeyframeAuto_inverted_SetQuick_direct
         [where v = "\<lparr>fValue = Some \<lparr>dropframes_p = 0, keyframe_auto_p = 5, quick_p = 0\<rparr>\<rparr>"
            and b = True]
       run1 run2
  show ?thesis by simp
qed

section \<open>The encoder session\<close>

lemma ask_eq [simp]: "ask ext c w = (ext (w @ [c]), w @ [c])"
  by (simp add: ask_def)

lemma ogg_error_eq_None [simp]: "ogg_error R = None \<longleftrightarrow> R = 0"
  by (simp add: ogg_error_def)

lemma ogg_error_eq_Some [simp]: "ogg_error R = Some e \<longleftrightarrow> R \<noteq> 0 \<and> e = OGGError R"
  by (auto simp: ogg_error_def)

text \<open>
  Claim C8.  \<^verbatim>\<open>PacketOut\<close> returns on every session whose engine state is allocated, for
  either value of \<^verbatim>\<open>last_p\<close>, after exactly one call of \<^verbatim>\<open>theora_encode_packetout\<close> with
  the flag 1 or 0.  Whenever it returns, the result is nil exactly when the engine
  reported status 1; it is \<^verbatim>\<open>ETheoraEncNotReadyException\<close> for status 0,
  \<^verbatim>\<open>ETheoraEncCompletedException\<close> for status -1, and \<^verbatim>\<open>errTheoraException\<close> carrying the
  status for every other value.
\<close>

theorem PacketOut_status_mapping:
  "(fState v \<noteq> None \<longrightarrow> (\<exists>r. PacketOut ext last_p op v w = Inr r))
   \<and> (\<forall>err op' w'. PacketOut ext last_p op v w = Inr (err, op', w') \<longrightarrow>
        w' = w @ [theora_encode_packetout (if last_p then 1 else 0)]
        \<and> (err = None \<longleftrightarrow> ext w' = 1)
        \<and> (ext w' = 0 \<longrightarrow> err = Some ETheoraEncNotReadyException)
        \<and> (ext w' = - 1 \<longrightarrow> err = Some ETheoraEncCompletedException)
        \<and> (ext w' \<notin> {1, 0, - 1} \<longrightarrow> err = Some (errTheoraException (ext w'))))"
  by (cases "fState v") (auto simp: PacketOut_def Let_def split: if_splits)

theorem PacketOut_status_mapping_witness:
  "PacketOut (\<lambda>_. - 20) True Blank \<lparr>fState = Some 1, foggs = Some 2, fwriter = 3\<rparr> []
     = Inr (Some (errTheoraException (- 20)), Blank, [theora_encode_packetout 1])"
proof -
  have run: "PacketOut (\<lambda>_. - 20) True Blank \<lparr>fState = Some 1, foggs = Some 2, fwriter = 3\<rparr> []
     = Inr (Some (errTheoraException (- 20)), Blank, [theora_encode_packetout 1])"
    by (simp add: PacketOut_def)
  from PacketOut_status_mapping
         [where v = "\<lparr>fState = Some 1, foggs = Some 2, fwriter = 3\<rparr>" and ext = "\<lambda>_. - 20"
            and last_p = True and op = Blank and w = "[]"] run
  show ?thesis by simp
qed



text \<open>
  On any session, a \<^verbatim>\<open>Close\<close> that returned nil has set \<^verbatim>\<open>foggs\<close> to nil, and the next
  \<^verbatim>\<open>Close\<close> calls \<^verbatim>\<open>Flush\<close> on it before the nil test.
\<close>

lemma Close_after_Close:
  assumes "Close ext v w = Inr (None, v', w')"
  shows "Close ext v' w' = Inl NilDereference"
  using assms
  by (cases "foggs v") (auto simp: Close_def Flush_def foggs_call_def split: if_splits)

text \<open>
  Claim C7.  \<^verbatim>\<open>Close\<close> is not idempotent.  On a session with an allocated stream and
  libraries that never fail, the first \<^verbatim>\<open>Close\<close> flushes, calls \<^verbatim>\<open>Done\<close> on the stream and
  sets \<^verbatim>\<open>foggs\<close> to nil; the second \<^verbatim>\<open>Close\<close> on the resulting session panics with a nil
  dereference, because \<^verbatim>\<open>Flush\<close> calls a method of \<^verbatim>\<open>foggs\<close> before \<^verbatim>\<open>Close\<close> tests it
  against nil.
\<close>

theorem Close_twice_panics:
  "Close (\<lambda>_. 0) \<lparr>fState = Some 1, foggs = Some 2, fwriter = 3\<rparr> []
     = Inr (None, \<lparr>fState = Some 1, foggs = None, fwriter = 3\<rparr>,
            [OGG_PagesFlushToStream, OGG_Done])
   \<and> Close (\<lambda>_. 0) \<lparr>fState = Some 1, foggs = None, fwriter = 3\<rparr>
            [OGG_PagesFlushToStream, OGG_Done]
     = Inl NilDereference"
  by (simp add: Close_def Flush_def foggs_call_def)

section \<open>Loops that write planes\<close>

declare for_loop.simps [simp del]

lemma store_Inr_iff:
  "store xs i b = Inr ys \<longleftrightarrow> 0 \<le> i \<and> i < int (length xs) \<and> ys = xs[nat i := b]"
  by (auto simp: store_def)

lemma store_ok: "0 \<le> i \<Longrightarrow> i < int (length xs) \<Longrightarrow> store xs i b = Inr (xs[nat i := b])"
  by (simp add: store_def)

lemma upd_rel_refl: "upd_rel {} f p p"
  by (simp add: upd_rel_def)

lemma upd_rel_trans:
  "upd_rel S f p q \<Longrightarrow> upd_rel T f q r \<Longrightarrow> upd_rel (S \<union> T) f p r"
  by (auto simp: upd_rel_def)

lemma upd_rel_update:
  "0 \<le> i \<Longrightarrow> i < int (length p) \<Longrightarrow> b = f i \<Longrightarrow> upd_rel S f p q
     \<Longrightarrow> upd_rel (insert i S) f p (q[nat i := b])"
  by (auto simp: upd_rel_def nth_list_update eq_nat_nat_iff)

lemma upd_rel_length: "upd_rel S f p q \<Longrightarrow> length q = length p"
  by (simp add: upd_rel_def)

lemma frame_rel_refl: "frame_rel {} {} fy fu fv A s s"
  by (simp add: frame_rel_def upd_rel_refl)

lemma frame_rel_trans:
  assumes "frame_rel SY SC fy fu fv A s t" and "frame_rel SY' SC' fy fu fv A t u"
  shows "frame_rel (SY \<union> SY') (SC \<union> SC') fy fu fv A s u"
proof -
  from assms obtain m1 m2 where m: "sampled t = sampled s @ m1" "set m1 \<subseteq> A"
      "sampled u = sampled t @ m2" "set m2 \<subseteq> A"
    by (auto simp: frame_rel_def)
  then have "sampled u = sampled s @ (m1 @ m2) \<and> set (m1 @ m2) \<subseteq> A"
    by simp
  then have "\<exists>more. sampled u = sampled s @ more \<and> set more \<subseteq> A"
    by blast
  with assms show ?thesis
    unfolding frame_rel_def by (blast intro: upd_rel_trans)
qed

lemma iters_step:
  assumes "0 < step" "i \<le> j" "step dvd (j - i)" "j < n"
  shows "{k \<in> iters step i n. k < j + step} = insert j {k \<in> iters step i n. k < j}"
proof -
  have "k < j \<or> k = j" if k: "k \<in> iters step i n" "k < j + step" for k
  proof (rule ccontr)
    assume "\<not> (k < j \<or> k = j)"
    then have pos: "0 < k - j" "k - j < step" using k by auto
    from k have "step dvd (k - i)" by (simp add: iters_def)
    from dvd_diff [OF this assms(3)] have "step dvd (k - j)" by simp
    with pos show False
      using zdvd_not_zless by blast
  qed
  moreover have "j \<in> iters step i n" using assms by (simp add: iters_def)
  ultimately show ?thesis using assms by auto
qed

lemma iters_done:
  assumes "n \<le> j"
  shows "{k \<in> iters step i n. k < j} = iters step i n"
  using assms by (auto simp: iters_def)

lemma for_loop_from:
  assumes step: "0 < step"
    and body: "\<And>j t. j \<in> iters step i n \<Longrightarrow> P {k \<in> iters step i n. k < j} t
                 \<Longrightarrow> \<exists>t'. body j t = Inr t' \<and> P (insert j {k \<in> iters step i n. k < j}) t'"
  shows "i \<le> j \<Longrightarrow> step dvd (j - i) \<Longrightarrow> P {k \<in> iters step i n. k < j} s
          \<Longrightarrow> \<exists>t. for_loop step n j body s = Inr t \<and> P (iters step i n) t"
proof (induction "nat (n - j)" arbitrary: j s rule: less_induct)
  case less
  show ?case
  proof (cases "j < n")
    case True
    then have jin: "j \<in> iters step i n"
      using less.prems by (simp add: iters_def)
    from body [OF jin less.prems(3)] obtain t'
      where t': "body j s = Inr t'" "P (insert j {k \<in> iters step i n. k < j}) t'"
      by blast
    have P': "P {k \<in> iters step i n. k < j + step} t'"
      using t'(2) iters_step [OF step less.prems(1,2) True] by simp
    have "\<exists>t. for_loop step n (j + step) body t' = Inr t \<and> P (iters step i n) t"
    proof (rule less.hyps [OF _ _ _ P'])
      show "nat (n - (j + step)) < nat (n - j)" using True step by simp
      show "i \<le> j + step" using less.prems(1) step by simp
      show "step dvd j + step - i" using less.prems(2)
        by (metis add_diff_eq diff_add_eq dvd_add_triv_right_iff)
    qed
    then show ?thesis
      using True step t'(1) by (subst for_loop.simps) simp
  next
    case False
    then have "{k \<in> iters step i n. k < j} = iters step i n"
      by (intro iters_done) simp
    with less.prems(3) False show ?thesis
      by (subst for_loop.simps) simp
  qed
qed

lemma for_loop_iters:
  assumes step: "0 < step"
    and init: "P {} s"
    and body: "\<And>j t. j \<in> iters step i n \<Longrightarrow> P {k \<in> iters step i n. k < j} t
                 \<Longrightarrow> \<exists>t'. body j t = Inr t' \<and> P (insert j {k \<in> iters step i n. k < j}) t'"
  shows "\<exists>t. for_loop step n i body s = Inr t \<and> P (iters step i n) t"
proof -
  have e: "{k \<in> iters step i n. k < i} = {}" by (auto simp: iters_def)
  have "P {k \<in> iters step i n. k < i} s" unfolding e by (rule init)
  with for_loop_from [where P = P and step = step and i = i and n = n and body = body
                        and j = i and s = s, OF step body]
  show ?thesis by simp
qed

lemma frame_rel_lens: "frame_rel SY SC fy fu fv A s t \<Longrightarrow> lens t = lens s"
  by (simp add: frame_rel_def upd_rel_def lens_def)

lemma for_loop_frame:
  assumes step: "0 < step"
    and body: "\<And>j t. j \<in> iters step i n \<Longrightarrow> lens t = lens s
                 \<Longrightarrow> \<exists>t'. body j t = Inr t' \<and> frame_rel (SY j) (SC j) fy fu fv A t t'"
  shows "\<exists>t. for_loop step n i body s = Inr t
            \<and> frame_rel (\<Union>j\<in>iters step i n. SY j) (\<Union>j\<in>iters step i n. SC j) fy fu fv A s t"
proof -
  let ?P = "\<lambda>S t. frame_rel (\<Union>j\<in>S. SY j) (\<Union>j\<in>S. SC j) fy fu fv A s t"
  have "\<exists>t. for_loop step n i body s = Inr t \<and> ?P (iters step i n) t"
  proof (rule for_loop_iters [OF step])
    show "?P {} s" by (simp add: frame_rel_refl)
  next
    fix j t
    assume j: "j \<in> iters step i n" and t: "?P {k \<in> iters step i n. k < j} t"
    from body [OF j frame_rel_lens [OF t]] obtain t'
      where t': "body j t = Inr t'" "frame_rel (SY j) (SC j) fy fu fv A t t'"
      by blast
    from frame_rel_trans [OF t t'(2)]
    have "?P (insert j {k \<in> iters step i n. k < j}) t'"
      by (simp add: Un_commute)
    with t'(1) show "\<exists>t'. body j t = Inr t' \<and> ?P (insert j {k \<in> iters step i n. k < j}) t'"
      by blast
  qed
  then show ?thesis .
qed

lemma word_and_not_15: "(x :: uint32) AND NOT 0xf = x - take_bit 4 x"
proof -
  have 1: "x - (x AND mask 4) = x AND NOT (x AND mask 4)"
    by (rule disjunctive_diff_eq_and_not) (auto simp: bit_eq_iff bit_simps)
  have 2: "x AND NOT (x AND mask 4) = x AND NOT (mask 4)"
    by (auto simp: bit_eq_iff bit_simps)
  have 3: "(mask 4 :: uint32) = 0xf"
    by (simp add: mask_eq_exp_minus_1)
  from 1 2 3 show ?thesis
    by (simp add: take_bit_eq_mask)
qed

lemma pad_word:
  assumes "0 \<le> a" "a < 2 ^ 32"
  shows "uint ((word_of_int a :: uint32) AND NOT 0xf) = a - a mod 16"
proof -
  let ?w = "word_of_int a :: uint32"
  have u: "uint ?w = a"
    using assms by (simp add: uint_word_of_int)
  have ut: "uint (take_bit 4 ?w) = a mod 16"
    by (simp only: unsigned_take_bit_eq u) (simp add: take_bit_eq_mod)
  have "a mod 16 \<le> a"
    using assms by (simp add: zmod_le_nonneg_dividend)
  then have le: "take_bit 4 ?w \<le> ?w"
    by (simp only: word_le_def ut u)
  have "uint (?w - take_bit 4 ?w) = uint ?w - uint (take_bit 4 ?w)"
    using le by (simp only: uint_minus_simple_alt)
  also have "\<dots> = a - a mod 16"
    by (simp only: u ut)
  finally show ?thesis
    by (simp only: word_and_not_15)
qed

lemma pad_word_simp:
  assumes "0 \<le> a" "a < 2 ^ 32"
  shows "uint ((word_of_int a :: uint32) AND - 16) = a - a mod 16"
  using pad_word [OF assms] by simp

lemma sint_small: "0 \<le> a \<Longrightarrow> a < 2 ^ 31 \<Longrightarrow> sint (word_of_int a :: 32 word) = a"
  by (simp add: sint_sbintrunc' signed_take_bit_int_eq_self)

lemma int_and_not_15: "(x::int) AND NOT 15 = x - x mod 16"
proof -
  have 1: "x - (x AND mask 4) = x AND NOT (x AND mask 4)"
    by (rule disjunctive_diff_eq_and_not) (auto simp: bit_eq_iff bit_simps)
  have 2: "x AND NOT (x AND mask 4) = x AND NOT (mask 4)"
    by (auto simp: bit_eq_iff bit_simps)
  have 3: "(mask 4 :: int) = 15"
    by (simp add: mask_eq_exp_minus_1)
  from 1 2 3 have "x AND NOT 15 = x - take_bit 4 x"
    by (simp add: take_bit_eq_mask)
  then show ?thesis by (simp add: take_bit_eq_mod)
qed

lemma idx_div: "0 \<le> c \<Longrightarrow> c < W \<Longrightarrow> (c + r * W) div W = (r::int)"
  by simp

lemma idx_mod: "0 \<le> c \<Longrightarrow> c < W \<Longrightarrow> (c + r * W) mod W = (c::int)"
  by simp

lemma idx_inj:
  assumes "0 \<le> a" "a < W" "0 \<le> c" "c < W"
  shows "a + b * W = c + d * W \<longleftrightarrow> a = c \<and> b = (d::int)"
proof
  assume e: "a + b * W = c + d * W"
  from arg_cong [OF e, of "\<lambda>i. i div W"] assms have "b = d" by simp
  with e show "a = c \<and> b = d" by simp
qed simp

lemma idx_bound:
  assumes "0 \<le> c" "c < W" "0 \<le> r" "r < (H::int)"
  shows "0 \<le> c + r * W \<and> c + r * W < W * H"
proof -
  have "r * W \<le> (H - 1) * W"
    using assms by (intro mult_right_mono) auto
  then have "c + r * W < W + (H - 1) * W" using assms by linarith
  also have "\<dots> = W * H" by (simp add: algebra_simps)
  finally show ?thesis using assms by simp
qed

lemma cell420_eq:
  "cell420 aData v w yuv_w y y1 x st =
     (let x1 = x + booltoint (x + 1 < w) in
      and_then (store (yuv_y st) (x + y * yuv_w) (luma_at aData x y)) (\<lambda>yy.
      and_then (store yy (x1 + y * yuv_w) (luma_at aData x1 y)) (\<lambda>yy.
      and_then (store yy (x + y1 * yuv_w) (luma_at aData x y1)) (\<lambda>yy.
      and_then (store yy (x1 + y1 * yuv_w) (luma_at aData x1 y1)) (\<lambda>yy.
      and_then (GetUVStride v) (\<lambda>uvs.
      and_then (store (yuv_u st) (drop_bit 1 x + drop_bit 1 y * uvs)
                 (clamp ((cb_at aData x y div 4 + cb_at aData x1 y div 4
                          + cb_at aData x y1 div 4 + cb_at aData x1 y1 div 4) div 225930))) (\<lambda>uu.
      and_then (GetUVStride v) (\<lambda>uvs.
      and_then (store (yuv_v st) (drop_bit 1 x + drop_bit 1 y * uvs)
                 (clamp ((cr_at aData x y div 4 + cr_at aData x1 y div 4
                          + cr_at aData x y1 div 4 + cr_at aData x1 y1 div 4) div 357510))) (\<lambda>vv.
      Inr \<lparr>yuv_y = yy, yuv_u = uu, yuv_v = vv,
           sampled = sampled st @ [(x, y), (x1, y), (x, y1), (x1, y1)]\<rparr>)))))))))"
  by (simp add: cell420_def luma_at_def cb_at_def cr_at_def Let_def split: prod.splits)

lemma iters2_D: "x \<in> iters 2 0 n \<Longrightarrow> 0 \<le> x \<and> x < n \<and> even x"
  by (simp add: iters_def)

lemma next_in: "0 \<le> x \<Longrightarrow> x < n \<Longrightarrow> 0 \<le> x + booltoint (x + 1 < n) \<and> x + booltoint (x + 1 < n) < n"
  by (simp add: booltoint_def)

lemma half_bound: "0 \<le> x \<Longrightarrow> x < W \<Longrightarrow> even W \<Longrightarrow> 0 \<le> x div 2 \<and> x div 2 < W div (2::int)"
  by auto

lemma upd_rel_store:
  assumes "upd_rel S f p q" "0 \<le> i" "i < int (length p)" "b = f i"
  shows "store q i b = Inr (q[nat i := b]) \<and> upd_rel (insert i S) f p (q[nat i := b])"
  using assms upd_rel_update [of i p b f S q] by (simp add: store_ok upd_rel_length)

lemma cell420_frame:
  assumes x: "x \<in> iters 2 0 w" and y: "y \<in> iters 2 0 h"
    and y1: "y1 = y + booltoint (y + 1 < h)"
    and W: "w \<le> W" "h \<le> H" "even W" "even H"
    and uvs: "GetUVStride v = Inr (W div 2)"
    and len: "lens t = (nat (W * H), nat (W div 2 * (H div 2)), nat (W div 2 * (H div 2)))"
  shows "\<exists>t'. cell420 aData v w W y y1 x t = Inr t' \<and>
           frame_rel {x + y * W, x + booltoint (x + 1 < w) + y * W,
                      x + y1 * W, x + booltoint (x + 1 < w) + y1 * W}
                     {x div 2 + y div 2 * (W div 2)}
                     (\<lambda>i. luma_at aData (i mod W) (i div W))
                     (\<lambda>i. U420_at aData w h (i mod (W div 2)) (i div (W div 2)))
                     (\<lambda>i. V420_at aData w h (i mod (W div 2)) (i div (W div 2)))
                     (visible w h) t t'"
proof -
  define x1 where "x1 = x + booltoint (x + 1 < w)"
  let ?fy = "\<lambda>i. luma_at aData (i mod W) (i div W)"
  let ?fu = "\<lambda>i. U420_at aData w h (i mod (W div 2)) (i div (W div 2))"
  let ?fv = "\<lambda>i. V420_at aData w h (i mod (W div 2)) (i div (W div 2))"
  from x y have xb: "0 \<le> x" "x < w" "even x" and yb: "0 \<le> y" "y < h" "even y"
    by (auto dest: iters2_D)
  from next_in [OF xb(1,2)] have x1b: "0 \<le> x1" "x1 < w" by (simp_all add: x1_def)
  from next_in [OF yb(1,2)] have y1b: "0 \<le> y1" "y1 < h" by (simp_all add: y1)
  have inW: "x < W" "x1 < W" and inH: "y < H" "y1 < H"
    using xb x1b yb y1b W by auto
  have ly: "int (length (yuv_y t)) = W * H"
    using len idx_bound [OF xb(1) inW(1) yb(1) inH(1)] by (simp add: lens_def)
  have cb: "0 \<le> x div 2" "x div 2 < W div 2" "0 \<le> y div 2" "y div 2 < H div 2"
    using half_bound [OF xb(1) inW(1) W(3)] half_bound [OF yb(1) inH(1) W(4)] by auto
  have lu: "int (length (yuv_u t)) = W div 2 * (H div 2)"
       "int (length (yuv_v t)) = W div 2 * (H div 2)"
    using len idx_bound [OF cb] by (simp_all add: lens_def)
  note b1 = idx_bound [OF xb(1) inW(1) yb(1) inH(1), folded ly]
  note b2 = idx_bound [OF x1b(1) inW(2) yb(1) inH(1), folded ly]
  note b3 = idx_bound [OF xb(1) inW(1) y1b(1) inH(2), folded ly]
  note b4 = idx_bound [OF x1b(1) inW(2) y1b(1) inH(2), folded ly]
  define p1 where "p1 = (yuv_y t)[nat (x + y * W) := luma_at aData x y]"
  define p2 where "p2 = p1[nat (x1 + y * W) := luma_at aData x1 y]"
  define p3 where "p3 = p2[nat (x + y1 * W) := luma_at aData x y1]"
  define p4 where "p4 = p3[nat (x1 + y1 * W) := luma_at aData x1 y1]"
  have s1: "store (yuv_y t) (x + y * W) (luma_at aData x y) = Inr p1
      \<and> upd_rel {x + y * W} ?fy (yuv_y t) p1"
    unfolding p1_def
    by (rule upd_rel_store [OF upd_rel_refl]) (use b1 xb inW in simp_all)
  have s2: "store p1 (x1 + y * W) (luma_at aData x1 y) = Inr p2
      \<and> upd_rel {x1 + y * W, x + y * W} ?fy (yuv_y t) p2"
    unfolding p2_def
    by (rule upd_rel_store [OF conjunct2 [OF s1]]) (use b2 x1b inW in simp_all)
  have s3: "store p2 (x + y1 * W) (luma_at aData x y1) = Inr p3
      \<and> upd_rel {x + y1 * W, x1 + y * W, x + y * W} ?fy (yuv_y t) p3"
    unfolding p3_def
    by (rule upd_rel_store [OF conjunct2 [OF s2]]) (use b3 xb inW in simp_all)
  have s4: "store p3 (x1 + y1 * W) (luma_at aData x1 y1) = Inr p4
      \<and> upd_rel {x1 + y1 * W, x + y1 * W, x1 + y * W, x + y * W} ?fy (yuv_y t) p4"
    unfolding p4_def
    by (rule upd_rel_store [OF conjunct2 [OF s3]]) (use b4 x1b inW in simp_all)
  have sety: "{x1 + y1 * W, x + y1 * W, x1 + y * W, x + y * W} = {x + y * W, x1 + y * W, x + y1 * W, x1 + y1 * W}"
    by auto
  define ub where "ub = clamp ((cb_at aData x y div 4 + cb_at aData x1 y div 4
                          + cb_at aData x y1 div 4 + cb_at aData x1 y1 div 4) div 225930)"
  define vb where "vb = clamp ((cr_at aData x y div 4 + cr_at aData x1 y div 4
                          + cr_at aData x y1 div 4 + cr_at aData x1 y1 div 4) div 357510)"
  have two: "2 * (x div 2) = x" "2 * (y div 2) = y" using xb yb by auto
  have ubv: "ub = ?fu (x div 2 + y div 2 * (W div 2))"
    using cb two by (simp add: U420_at_def ub_def x1_def y1 Let_def)
  have vbv: "vb = ?fv (x div 2 + y div 2 * (W div 2))"
    using cb two by (simp add: V420_at_def vb_def x1_def y1 Let_def)
  note bc = idx_bound [OF cb]
  define q1 where "q1 = (yuv_u t)[nat (x div 2 + y div 2 * (W div 2)) := ub]"
  define q2 where "q2 = (yuv_v t)[nat (x div 2 + y div 2 * (W div 2)) := vb]"
  have su: "store (yuv_u t) (x div 2 + y div 2 * (W div 2)) ub = Inr q1
      \<and> upd_rel {x div 2 + y div 2 * (W div 2)} ?fu (yuv_u t) q1"
    unfolding q1_def
    by (rule upd_rel_store [where f = "?fu" and i = "x div 2 + y div 2 * (W div 2)", OF upd_rel_refl _ _ ubv])
       (use bc lu in simp_all)
  have sv: "store (yuv_v t) (x div 2 + y div 2 * (W div 2)) vb = Inr q2
      \<and> upd_rel {x div 2 + y div 2 * (W div 2)} ?fv (yuv_v t) q2"
    unfolding q2_def
    by (rule upd_rel_store [where f = "?fv" and i = "x div 2 + y div 2 * (W div 2)", OF upd_rel_refl _ _ vbv])
       (use bc lu in simp_all)
  have run: "cell420 aData v w W y y1 x t =
      Inr \<lparr>yuv_y = p4, yuv_u = q1, yuv_v = q2,
           sampled = sampled t @ [(x, y), (x1, y), (x, y1), (x1, y1)]\<rparr>"
    using s1 s2 s3 s4 su sv
    by (simp add: cell420_eq Let_def uvs drop_bit_eq_div
          flip: x1_def ub_def vb_def)
  have smp: "set [(x, y), (x1, y), (x, y1), (x1, y1)] \<subseteq> visible w h"
    using xb x1b yb y1b by (simp add: visible_def)
  show ?thesis
    unfolding run frame_rel_def x1_def [symmetric]
    using s4 su sv smp by (simp add: sety)
qed

lemma convert420_frame:
  assumes W: "w \<le> W" "h \<le> H" "even W" "even H"
    and uvs: "GetUVStride v = Inr (W div 2)"
    and len: "lens s = (nat (W * H), nat (W div 2 * (H div 2)), nat (W div 2 * (H div 2)))"
  shows "\<exists>t. convert420 aData v w h W s = Inr t \<and>
           frame_rel (\<Union>y\<in>iters 2 0 h. \<Union>x\<in>iters 2 0 w. Y420_cell w h W y x)
                     (\<Union>y\<in>iters 2 0 h. \<Union>x\<in>iters 2 0 w. {x div 2 + y div 2 * (W div 2)})
                     (\<lambda>i. luma_at aData (i mod W) (i div W))
                     (\<lambda>i. U420_at aData w h (i mod (W div 2)) (i div (W div 2)))
                     (\<lambda>i. V420_at aData w h (i mod (W div 2)) (i div (W div 2)))
                     (visible w h) s t"
  unfolding convert420_def
proof (rule for_loop_frame)
  fix y t
  assume y: "y \<in> iters 2 0 h" and t: "lens t = lens s"
  have "\<exists>t'. for_loop 2 w 0 (cell420 aData v w W y (y + booltoint (y + 1 < h))) t = Inr t' \<and>
           frame_rel (\<Union>x\<in>iters 2 0 w. Y420_cell w h W y x)
                     (\<Union>x\<in>iters 2 0 w. {x div 2 + y div 2 * (W div 2)})
                     (\<lambda>i. luma_at aData (i mod W) (i div W))
                     (\<lambda>i. U420_at aData w h (i mod (W div 2)) (i div (W div 2)))
                     (\<lambda>i. V420_at aData w h (i mod (W div 2)) (i div (W div 2)))
                     (visible w h) t t'"
  proof (rule for_loop_frame)
    fix x u
    assume x: "x \<in> iters 2 0 w" and u: "lens u = lens t"
    from cell420_frame [OF x y refl W uvs, of u aData] u t len
    show "\<exists>t'. cell420 aData v w W y (y + booltoint (y + 1 < h)) x u = Inr t' \<and>
           frame_rel (Y420_cell w h W y x) {x div 2 + y div 2 * (W div 2)}
                     (\<lambda>i. luma_at aData (i mod W) (i div W))
                     (\<lambda>i. U420_at aData w h (i mod (W div 2)) (i div (W div 2)))
                     (\<lambda>i. V420_at aData w h (i mod (W div 2)) (i div (W div 2)))
                     (visible w h) u t'"
      by (simp add: Y420_cell_def)
  qed simp
  then show "\<exists>t'. (let y1 = y + booltoint (y + 1 < h)
                   in for_loop 2 w 0 (cell420 aData v w W y y1) t) = Inr t' \<and>
           frame_rel (\<Union>x\<in>iters 2 0 w. Y420_cell w h W y x)
                     (\<Union>x\<in>iters 2 0 w. {x div 2 + y div 2 * (W div 2)})
                     (\<lambda>i. luma_at aData (i mod W) (i div W))
                     (\<lambda>i. U420_at aData w h (i mod (W div 2)) (i div (W div 2)))
                     (\<lambda>i. V420_at aData w h (i mod (W div 2)) (i div (W div 2)))
                     (visible w h) t t'"
    by (simp add: Let_def)
qed simp

lemma Y420_mem:
  assumes c: "0 \<le> c" "c < W" and r: "0 \<le> r" and W: "w \<le> W"
  shows "c + r * W \<in> (\<Union>y\<in>iters 2 0 h. \<Union>x\<in>iters 2 0 w. Y420_cell w h W y x)
           \<longleftrightarrow> c < w \<and> r < h"
proof
  assume "c + r * W \<in> (\<Union>y\<in>iters 2 0 h. \<Union>x\<in>iters 2 0 w. Y420_cell w h W y x)"
  then obtain y x where y: "y \<in> iters 2 0 h" and x: "x \<in> iters 2 0 w"
    and m: "c + r * W \<in> Y420_cell w h W y x"
    by blast
  from x y have xb: "0 \<le> x" "x < w" and yb: "0 \<le> y" "y < h"
    by (auto dest: iters2_D)
  from m obtain x' y' where e: "c + r * W = x' + y' * W"
    and x': "x' = x \<or> x' = x + booltoint (x + 1 < w)"
    and y': "y' = y \<or> y' = y + booltoint (y + 1 < h)"
    by (auto simp: Y420_cell_def)
  from x' next_in [OF xb] xb have x'b: "0 \<le> x'" "x' < w" by auto
  from y' next_in [OF yb] yb have y'b: "0 \<le> y'" "y' < h" by auto
  from e idx_inj [of c W x' r y'] c x'b W have "c = x'" "r = y'" by auto
  with x'b y'b show "c < w \<and> r < h" by simp
next
  assume a: "c < w \<and> r < h"
  let ?x = "2 * (c div 2)" and ?y = "2 * (r div 2)"
  have x: "?x \<in> iters 2 0 w" and y: "?y \<in> iters 2 0 h"
    using a c r by (auto simp: iters_def)
  have "c = ?x \<or> c = ?x + booltoint (?x + 1 < w)"
    using a by (auto simp: booltoint_def)
  moreover have "r = ?y \<or> r = ?y + booltoint (?y + 1 < h)"
    using a by (auto simp: booltoint_def)
  ultimately have "c + r * W \<in> Y420_cell w h W ?y ?x"
    unfolding Y420_cell_def by (elim disjE) simp_all
  with x y show "c + r * W \<in> (\<Union>y\<in>iters 2 0 h. \<Union>x\<in>iters 2 0 w. Y420_cell w h W y x)"
    by blast
qed

lemma C420_mem:
  assumes c: "0 \<le> c" "c < W2" and r: "0 \<le> r" and W: "w \<le> 2 * W2"
  shows "c + r * W2 \<in> (\<Union>y\<in>iters 2 0 h. \<Union>x\<in>iters 2 0 w. {x div 2 + y div 2 * W2})
           \<longleftrightarrow> 2 * c < w \<and> 2 * r < h"
proof
  assume "c + r * W2 \<in> (\<Union>y\<in>iters 2 0 h. \<Union>x\<in>iters 2 0 w. {x div 2 + y div 2 * W2})"
  then obtain y x where y: "y \<in> iters 2 0 h" and x: "x \<in> iters 2 0 w"
    and e: "c + r * W2 = x div 2 + y div 2 * W2"
    by blast
  from x y have xb: "0 \<le> x" "x < w" "even x" and yb: "0 \<le> y" "y < h" "even y"
    by (auto dest: iters2_D)
  have "0 \<le> x div 2" "x div 2 < W2" using xb W by auto
  with e idx_inj [of c W2 "x div 2" r "y div 2"] c have "c = x div 2" "r = y div 2" by auto
  with xb yb show "2 * c < w \<and> 2 * r < h" by auto
next
  assume a: "2 * c < w \<and> 2 * r < h"
  have "2 * c \<in> iters 2 0 w" "2 * r \<in> iters 2 0 h"
    using a c r by (auto simp: iters_def)
  moreover have "c + r * W2 = (2 * c) div 2 + (2 * r) div 2 * W2" by simp
  ultimately show "c + r * W2 \<in> (\<Union>y\<in>iters 2 0 h. \<Union>x\<in>iters 2 0 w. {x div 2 + y div 2 * W2})"
    by blast
qed

lemma upd_rel_plane:
  assumes u: "upd_rel S (\<lambda>i. f (i mod W) (i div W)) (replicate (nat (W * H)) 0) p"
    and WH: "0 \<le> W" "0 \<le> H"
    and mem: "\<And>c r. 0 \<le> c \<Longrightarrow> c < W \<Longrightarrow> 0 \<le> r \<Longrightarrow> r < H \<Longrightarrow> c + r * W \<in> S \<longleftrightarrow> vis c r"
  shows "plane_is p W H vis f"
  unfolding plane_is_def
proof (intro conjI allI impI)
  show "int (length p) = W * H"
    using u WH by (simp add: upd_rel_def)
next
  fix c r
  assume a: "0 \<le> c \<and> c < W \<and> 0 \<le> r \<and> r < H"
  then have b: "0 \<le> c + r * W" "c + r * W < W * H"
    using idx_bound [of c W r H] by auto
  with u have "p ! nat (c + r * W) =
      (if c + r * W \<in> S then f ((c + r * W) mod W) ((c + r * W) div W) else 0)"
    by (simp add: upd_rel_def)
  with a mem [of c r] show "p ! nat (c + r * W) = (if vis c r then f c r else 0)"
    by simp
qed

lemma iters1_D: "x \<in> iters 1 0 n \<Longrightarrow> 0 \<le> x \<and> x < n"
  by (simp add: iters_def)

lemma cell444_eq:
  "cell444 aData yuv_w y x st =
     and_then (store (yuv_y st) (x + y * yuv_w) (luma_at aData x y)) (\<lambda>yy.
     and_then (store (yuv_u st) (x + y * yuv_w) (U444_at aData x y)) (\<lambda>uu.
     and_then (store (yuv_v st) (x + y * yuv_w) (V444_at aData x y)) (\<lambda>vv.
     Inr \<lparr>yuv_y = yy, yuv_u = uu, yuv_v = vv, sampled = sampled st @ [(x, y)]\<rparr>)))"
  by (simp add: cell444_def luma_at_def cb_at_def cr_at_def U444_at_def V444_at_def
           split: prod.splits)

lemma cell444_frame:
  assumes x: "x \<in> iters 1 0 w" and y: "y \<in> iters 1 0 h"
    and W: "w \<le> W" "h \<le> H"
    and len: "lens t = (nat (W * H), nat (W * H), nat (W * H))"
  shows "\<exists>t'. cell444 aData W y x t = Inr t' \<and>
           frame_rel {x + y * W} {x + y * W}
                     (\<lambda>i. luma_at aData (i mod W) (i div W))
                     (\<lambda>i. U444_at aData (i mod W) (i div W))
                     (\<lambda>i. V444_at aData (i mod W) (i div W))
                     (visible w h) t t'"
proof -
  let ?fy = "\<lambda>i. luma_at aData (i mod W) (i div W)"
  let ?fu = "\<lambda>i. U444_at aData (i mod W) (i div W)"
  let ?fv = "\<lambda>i. V444_at aData (i mod W) (i div W)"
  from x y have xb: "0 \<le> x" "x < w" and yb: "0 \<le> y" "y < h"
    by (auto dest: iters1_D)
  have inW: "x < W" and inH: "y < H" using xb yb W by auto
  note b = idx_bound [OF xb(1) inW yb(1) inH]
  have l: "int (length (yuv_y t)) = W * H" "int (length (yuv_u t)) = W * H"
      "int (length (yuv_v t)) = W * H"
    using len b by (simp_all add: lens_def)
  define p where "p = (yuv_y t)[nat (x + y * W) := luma_at aData x y]"
  define q1 where "q1 = (yuv_u t)[nat (x + y * W) := U444_at aData x y]"
  define q2 where "q2 = (yuv_v t)[nat (x + y * W) := V444_at aData x y]"
  have sy: "store (yuv_y t) (x + y * W) (luma_at aData x y) = Inr p
      \<and> upd_rel {x + y * W} ?fy (yuv_y t) p"
    unfolding p_def
    by (rule upd_rel_store [where f = "?fy" and i = "x + y * W", OF upd_rel_refl])
       (use b l xb inW in simp_all)
  have su: "store (yuv_u t) (x + y * W) (U444_at aData x y) = Inr q1
      \<and> upd_rel {x + y * W} ?fu (yuv_u t) q1"
    unfolding q1_def
    by (rule upd_rel_store [where f = "?fu" and i = "x + y * W", OF upd_rel_refl])
       (use b l xb inW in simp_all)
  have sv: "store (yuv_v t) (x + y * W) (V444_at aData x y) = Inr q2
      \<and> upd_rel {x + y * W} ?fv (yuv_v t) q2"
    unfolding q2_def
    by (rule upd_rel_store [where f = "?fv" and i = "x + y * W", OF upd_rel_refl])
       (use b l xb inW in simp_all)
  have run: "cell444 aData W y x t =
      Inr \<lparr>yuv_y = p, yuv_u = q1, yuv_v = q2, sampled = sampled t @ [(x, y)]\<rparr>"
    using sy su sv by (simp add: cell444_eq)
  have smp: "set [(x, y)] \<subseteq> visible w h"
    using xb yb by (simp add: visible_def)
  show ?thesis
    unfolding run frame_rel_def using sy su sv smp by simp
qed

lemma convert444_frame:
  assumes W: "w \<le> W" "h \<le> H"
    and len: "lens s = (nat (W * H), nat (W * H), nat (W * H))"
  shows "\<exists>t. convert444 aData w h W s = Inr t \<and>
           frame_rel (\<Union>y\<in>iters 1 0 h. \<Union>x\<in>iters 1 0 w. {x + y * W})
                     (\<Union>y\<in>iters 1 0 h. \<Union>x\<in>iters 1 0 w. {x + y * W})
                     (\<lambda>i. luma_at aData (i mod W) (i div W))
                     (\<lambda>i. U444_at aData (i mod W) (i div W))
                     (\<lambda>i. V444_at aData (i mod W) (i div W))
                     (visible w h) s t"
  unfolding convert444_def
proof (rule for_loop_frame)
  fix y t
  assume y: "y \<in> iters 1 0 h" and t: "lens t = lens s"
  show "\<exists>t'. for_loop 1 w 0 (cell444 aData W y) t = Inr t' \<and>
           frame_rel (\<Union>x\<in>iters 1 0 w. {x + y * W}) (\<Union>x\<in>iters 1 0 w. {x + y * W})
                     (\<lambda>i. luma_at aData (i mod W) (i div W))
                     (\<lambda>i. U444_at aData (i mod W) (i div W))
                     (\<lambda>i. V444_at aData (i mod W) (i div W))
                     (visible w h) t t'"
  proof (rule for_loop_frame)
    fix x u
    assume x: "x \<in> iters 1 0 w" and u: "lens u = lens t"
    from cell444_frame [OF x y W, of u aData] u t len
    show "\<exists>t'. cell444 aData W y x u = Inr t' \<and>
           frame_rel {x + y * W} {x + y * W}
                     (\<lambda>i. luma_at aData (i mod W) (i div W))
                     (\<lambda>i. U444_at aData (i mod W) (i div W))
                     (\<lambda>i. V444_at aData (i mod W) (i div W))
                     (visible w h) u t'"
      by simp
  qed simp
qed simp

lemma Y444_mem:
  assumes c: "0 \<le> c" "c < W" and r: "0 \<le> r" and W: "w \<le> W"
  shows "c + r * W \<in> (\<Union>y\<in>iters 1 0 h. \<Union>x\<in>iters 1 0 w. {x + y * W})
           \<longleftrightarrow> c < w \<and> r < h"
proof
  assume "c + r * W \<in> (\<Union>y\<in>iters 1 0 h. \<Union>x\<in>iters 1 0 w. {x + y * W})"
  then obtain y x where y: "y \<in> iters 1 0 h" and x: "x \<in> iters 1 0 w"
    and e: "c + r * W = x + y * W"
    by blast
  from x y have xb: "0 \<le> x" "x < w" and yb: "0 \<le> y" "y < h"
    by (auto dest: iters1_D)
  from e idx_inj [of c W x r y] c xb W have "c = x" "r = y" by auto
  with xb yb show "c < w \<and> r < h" by simp
next
  assume a: "c < w \<and> r < h"
  then have "c \<in> iters 1 0 w" "r \<in> iters 1 0 h"
    using c r by (auto simp: iters_def)
  then show "c + r * W \<in> (\<Union>y\<in>iters 1 0 h. \<Union>x\<in>iters 1 0 w. {x + y * W})"
    by blast
qed

lemma cell422_eq:
  "cell422 aData v w yuv_w y x st =
     (let x1 = x + booltoint (x + 1 < w) in
      and_then (store (yuv_y st) (x + y * yuv_w) (luma_at aData x y)) (\<lambda>yy.
      and_then (store yy (x1 + y * yuv_w) (luma_at aData x1 y)) (\<lambda>yy.
      and_then (GetUVStride v) (\<lambda>uvs.
      and_then (store (yuv_u st) (drop_bit 1 x + y * uvs)
                 (clamp ((cb_at aData x y div 2 + cb_at aData x1 y div 2) div 225930))) (\<lambda>uu.
      and_then (GetUVStride v) (\<lambda>uvs.
      and_then (store (yuv_v st) (drop_bit 1 x + y * uvs)
                 (clamp ((cr_at aData x y div 2 + cr_at aData x1 y div 2) div 357510))) (\<lambda>vv.
      Inr \<lparr>yuv_y = yy, yuv_u = uu, yuv_v = vv,
           sampled = sampled st @ [(x, y), (x1, y)]\<rparr>)))))))"
  by (simp add: cell422_def luma_at_def cb_at_def cr_at_def Let_def split: prod.splits)

lemma cell422_frame:
  assumes x: "x \<in> iters 2 0 w" and y: "y \<in> iters 1 0 h"
    and W: "w \<le> W" "h \<le> H" "even W"
    and uvs: "GetUVStride v = Inr (W div 2)"
    and len: "lens t = (nat (W * H), nat (W div 2 * H), nat (W div 2 * H))"
  shows "\<exists>t'. cell422 aData v w W y x t = Inr t' \<and>
           frame_rel (Y422_cell w W y x) {x div 2 + y * (W div 2)}
                     (\<lambda>i. luma_at aData (i mod W) (i div W))
                     (\<lambda>i. U422_at aData w (i mod (W div 2)) (i div (W div 2)))
                     (\<lambda>i. V422_at aData w (i mod (W div 2)) (i div (W div 2)))
                     (visible w h) t t'"
proof -
  define x1 where "x1 = x + booltoint (x + 1 < w)"
  let ?fy = "\<lambda>i. luma_at aData (i mod W) (i div W)"
  let ?fu = "\<lambda>i. U422_at aData w (i mod (W div 2)) (i div (W div 2))"
  let ?fv = "\<lambda>i. V422_at aData w (i mod (W div 2)) (i div (W div 2))"
  from x y have xb: "0 \<le> x" "x < w" "even x" and yb: "0 \<le> y" "y < h"
    by (auto dest: iters2_D iters1_D)
  from next_in [OF xb(1,2)] have x1b: "0 \<le> x1" "x1 < w" by (simp_all add: x1_def)
  have inW: "x < W" "x1 < W" and inH: "y < H"
    using xb x1b yb W by auto
  have ly: "int (length (yuv_y t)) = W * H"
    using len idx_bound [OF xb(1) inW(1) yb(1) inH] by (simp add: lens_def)
  have cb: "0 \<le> x div 2" "x div 2 < W div 2"
    using half_bound [OF xb(1) inW(1) W(3)] by auto
  note bc = idx_bound [OF cb yb(1) inH]
  have lu: "int (length (yuv_u t)) = W div 2 * H" "int (length (yuv_v t)) = W div 2 * H"
    using len bc by (simp_all add: lens_def)
  note b1 = idx_bound [OF xb(1) inW(1) yb(1) inH, folded ly]
  note b2 = idx_bound [OF x1b(1) inW(2) yb(1) inH, folded ly]
  define p1 where "p1 = (yuv_y t)[nat (x + y * W) := luma_at aData x y]"
  define p2 where "p2 = p1[nat (x1 + y * W) := luma_at aData x1 y]"
  have s1: "store (yuv_y t) (x + y * W) (luma_at aData x y) = Inr p1
      \<and> upd_rel {x + y * W} ?fy (yuv_y t) p1"
    unfolding p1_def
    by (rule upd_rel_store [OF upd_rel_refl]) (use b1 xb inW in simp_all)
  have s2: "store p1 (x1 + y * W) (luma_at aData x1 y) = Inr p2
      \<and> upd_rel {x1 + y * W, x + y * W} ?fy (yuv_y t) p2"
    unfolding p2_def
    by (rule upd_rel_store [OF conjunct2 [OF s1]]) (use b2 x1b inW in simp_all)
  have sety: "{x1 + y * W, x + y * W} = Y422_cell w W y x"
    by (auto simp: Y422_cell_def x1_def)
  define ub where "ub = clamp ((cb_at aData x y div 2 + cb_at aData x1 y div 2) div 225930)"
  define vb where "vb = clamp ((cr_at aData x y div 2 + cr_at aData x1 y div 2) div 357510)"
  have two: "2 * (x div 2) = x" using xb by auto
  have ubv: "ub = ?fu (x div 2 + y * (W div 2))"
    using cb two by (simp add: U422_at_def ub_def x1_def Let_def)
  have vbv: "vb = ?fv (x div 2 + y * (W div 2))"
    using cb two by (simp add: V422_at_def vb_def x1_def Let_def)
  define q1 where "q1 = (yuv_u t)[nat (x div 2 + y * (W div 2)) := ub]"
  define q2 where "q2 = (yuv_v t)[nat (x div 2 + y * (W div 2)) := vb]"
  have su: "store (yuv_u t) (x div 2 + y * (W div 2)) ub = Inr q1
      \<and> upd_rel {x div 2 + y * (W div 2)} ?fu (yuv_u t) q1"
    unfolding q1_def
    by (rule upd_rel_store [where f = "?fu" and i = "x div 2 + y * (W div 2)", OF upd_rel_refl _ _ ubv])
       (use bc lu in simp_all)
  have sv: "store (yuv_v t) (x div 2 + y * (W div 2)) vb = Inr q2
      \<and> upd_rel {x div 2 + y * (W div 2)} ?fv (yuv_v t) q2"
    unfolding q2_def
    by (rule upd_rel_store [where f = "?fv" and i = "x div 2 + y * (W div 2)", OF upd_rel_refl _ _ vbv])
       (use bc lu in simp_all)
  have run: "cell422 aData v w W y x t =
      Inr \<lparr>yuv_y = p2, yuv_u = q1, yuv_v = q2,
           sampled = sampled t @ [(x, y), (x1, y)]\<rparr>"
    using s1 s2 su sv
    by (simp add: cell422_eq Let_def uvs drop_bit_eq_div flip: x1_def ub_def vb_def)
  have smp: "set [(x, y), (x1, y)] \<subseteq> visible w h"
    using xb x1b yb by (simp add: visible_def)
  show ?thesis
    unfolding run frame_rel_def using s2 su sv smp by (simp add: sety)
qed

lemma convert422_frame:
  assumes W: "w \<le> W" "h \<le> H" "even W"
    and uvs: "GetUVStride v = Inr (W div 2)"
    and len: "lens s = (nat (W * H), nat (W div 2 * H), nat (W div 2 * H))"
  shows "\<exists>t. convert422 aData v w h W s = Inr t \<and>
           frame_rel (\<Union>y\<in>iters 1 0 h. \<Union>x\<in>iters 2 0 w. Y422_cell w W y x)
                     (\<Union>y\<in>iters 1 0 h. \<Union>x\<in>iters 2 0 w. {x div 2 + y * (W div 2)})
                     (\<lambda>i. luma_at aData (i mod W) (i div W))
                     (\<lambda>i. U422_at aData w (i mod (W div 2)) (i div (W div 2)))
                     (\<lambda>i. V422_at aData w (i mod (W div 2)) (i div (W div 2)))
                     (visible w h) s t"
  unfolding convert422_def
proof (rule for_loop_frame)
  fix y t
  assume y: "y \<in> iters 1 0 h" and t: "lens t = lens s"
  show "\<exists>t'. for_loop 2 w 0 (cell422 aData v w W y) t = Inr t' \<and>
           frame_rel (\<Union>x\<in>iters 2 0 w. Y422_cell w W y x)
                     (\<Union>x\<in>iters 2 0 w. {x div 2 + y * (W div 2)})
                     (\<lambda>i. luma_at aData (i mod W) (i div W))
                     (\<lambda>i. U422_at aData w (i mod (W div 2)) (i div (W div 2)))
                     (\<lambda>i. V422_at aData w (i mod (W div 2)) (i div (W div 2)))
                     (visible w h) t t'"
  proof (rule for_loop_frame)
    fix x u
    assume x: "x \<in> iters 2 0 w" and u: "lens u = lens t"
    from cell422_frame [OF x y W uvs, of u aData] u t len
    show "\<exists>t'. cell422 aData v w W y x u = Inr t' \<and>
           frame_rel (Y422_cell w W y x) {x div 2 + y * (W div 2)}
                     (\<lambda>i. luma_at aData (i mod W) (i div W))
                     (\<lambda>i. U422_at aData w (i mod (W div 2)) (i div (W div 2)))
                     (\<lambda>i. V422_at aData w (i mod (W div 2)) (i div (W div 2)))
                     (visible w h) u t'"
      by simp
  qed simp
qed simp

lemma Y422_mem:
  assumes c: "0 \<le> c" "c < W" and r: "0 \<le> r" and W: "w \<le> W"
  shows "c + r * W \<in> (\<Union>y\<in>iters 1 0 h. \<Union>x\<in>iters 2 0 w. Y422_cell w W y x)
           \<longleftrightarrow> c < w \<and> r < h"
proof
  assume "c + r * W \<in> (\<Union>y\<in>iters 1 0 h. \<Union>x\<in>iters 2 0 w. Y422_cell w W y x)"
  then obtain y x where y: "y \<in> iters 1 0 h" and x: "x \<in> iters 2 0 w"
    and m: "c + r * W \<in> Y422_cell w W y x"
    by blast
  from x y have xb: "0 \<le> x" "x < w" and yb: "0 \<le> y" "y < h"
    by (auto dest: iters2_D iters1_D)
  from m obtain x' where e: "c + r * W = x' + y * W"
    and x': "x' = x \<or> x' = x + booltoint (x + 1 < w)"
    by (auto simp: Y422_cell_def)
  from x' next_in [OF xb] xb have x'b: "0 \<le> x'" "x' < w" by auto
  from e idx_inj [of c W x' r y] c x'b W have "c = x'" "r = y" by auto
  with x'b yb show "c < w \<and> r < h" by simp
next
  assume a: "c < w \<and> r < h"
  let ?x = "2 * (c div 2)"
  have x: "?x \<in> iters 2 0 w" and y: "r \<in> iters 1 0 h"
    using a c r by (auto simp: iters_def)
  have "c = ?x \<or> c = ?x + booltoint (?x + 1 < w)"
    using a by (auto simp: booltoint_def)
  then have "c + r * W \<in> Y422_cell w W r ?x"
    unfolding Y422_cell_def by (elim disjE) simp_all
  with x y show "c + r * W \<in> (\<Union>y\<in>iters 1 0 h. \<Union>x\<in>iters 2 0 w. Y422_cell w W y x)"
    by blast
qed

lemma C422_mem:
  assumes c: "0 \<le> c" "c < W2" and r: "0 \<le> r" and W: "w \<le> 2 * W2"
  shows "c + r * W2 \<in> (\<Union>y\<in>iters 1 0 h. \<Union>x\<in>iters 2 0 w. {x div 2 + y * W2})
           \<longleftrightarrow> 2 * c < w \<and> r < h"
proof
  assume "c + r * W2 \<in> (\<Union>y\<in>iters 1 0 h. \<Union>x\<in>iters 2 0 w. {x div 2 + y * W2})"
  then obtain y x where y: "y \<in> iters 1 0 h" and x: "x \<in> iters 2 0 w"
    and e: "c + r * W2 = x div 2 + y * W2"
    by blast
  from x y have xb: "0 \<le> x" "x < w" "even x" and yb: "0 \<le> y" "y < h"
    by (auto dest: iters2_D iters1_D)
  have "0 \<le> x div 2" "x div 2 < W2" using xb W by auto
  with e idx_inj [of c W2 "x div 2" r y] c have "c = x div 2" "r = y" by auto
  with xb yb show "2 * c < w \<and> r < h" by auto
next
  assume a: "2 * c < w \<and> r < h"
  have "2 * c \<in> iters 2 0 w" "r \<in> iters 1 0 h"
    using a c r by (auto simp: iters_def)
  moreover have "c + r * W2 = (2 * c) div 2 + r * W2" by simp
  ultimately show "c + r * W2 \<in> (\<Union>y\<in>iters 1 0 h. \<Union>x\<in>iters 2 0 w. {x div 2 + y * W2})"
    by blast
qed

section \<open>The converter as a whole\<close>

lemma pad16_eq: "pad16 n = n + 15 - (n + 15) mod 16"
  by (simp only: pad16_def int_and_not_15)

lemma pad16_props: "16 dvd pad16 n \<and> n \<le> pad16 n \<and> pad16 n < n + 16"
proof -
  have "16 dvd (n + 15) - (n + 15) mod 16"
    by (simp add: dvd_minus_mod) 
  moreover have "0 \<le> (n + 15) mod 16" "(n + 15) mod 16 < 16" by simp_all
  ultimately show ?thesis unfolding pad16_eq by linarith
qed

lemma pad16_word:
  assumes "0 \<le> n" "n + 15 < 2 ^ 31"
  shows "uint ((word_of_int (n + 15) :: uint32) AND NOT 0xf) = pad16 n"
proof -
  have "uint ((word_of_int (n + 15) :: uint32) AND NOT 0xf) = n + 15 - (n + 15) mod 16"
    by (rule pad_word) (use assms in simp_all)
  then show ?thesis by (simp only: pad16_eq)
qed

lemma loops_planes:
  assumes f: "supported f"
    and W: "w \<le> W" "h \<le> H" "even W" "even H" "0 \<le> W" "0 \<le> H"
    and uvs: "GetUVStride v = Inr (chroma_width f W)"
    and st0: "st0 = \<lparr>yuv_y = zeros (W * H),
                     yuv_u = zeros (chroma_width f W * chroma_height f H),
                     yuv_v = zeros (chroma_width f W * chroma_height f H), sampled = []\<rparr>"
  shows "\<exists>t. (if f = YCbCrSubsampleRatio420 then convert420 aData v w h W st0
             else if f = YCbCrSubsampleRatio444 then convert444 aData w h W st0
             else convert422 aData v w h W st0) = Inr t \<and>
           plane_is (yuv_y t) W H (luma_visible w h) (luma_at aData) \<and>
           plane_is (yuv_u t) (chroma_width f W) (chroma_height f H)
             (chroma_visible f w h) (U_at f aData w h) \<and>
           plane_is (yuv_v t) (chroma_width f W) (chroma_height f H)
             (chroma_visible f w h) (V_at f aData w h) \<and>
           set (sampled t) \<subseteq> visible w h"
proof -
  have W2: "w \<le> 2 * (W div 2)" "0 \<le> W div 2" "0 \<le> H div 2" using W by auto
  consider (a) "f = YCbCrSubsampleRatio420" | (b) "f = YCbCrSubsampleRatio444"
    | (c) "f = YCbCrSubsampleRatio422"
    using f by (auto simp: supported_def)
  then show ?thesis
  proof cases
    case a
    have len: "lens st0 = (nat (W * H), nat (W div 2 * (H div 2)), nat (W div 2 * (H div 2)))"
      by (simp add: lens_def st0 a chroma_width_def chroma_height_def zeros_def)
    from uvs a have uvs': "GetUVStride v = Inr (W div 2)" by (simp add: chroma_width_def)
    from convert420_frame [OF W(1-4) uvs' len, of aData] obtain t
      where t: "convert420 aData v w h W st0 = Inr t"
        and fr: "frame_rel (\<Union>y\<in>iters 2 0 h. \<Union>x\<in>iters 2 0 w. Y420_cell w h W y x)
                     (\<Union>y\<in>iters 2 0 h. \<Union>x\<in>iters 2 0 w. {x div 2 + y div 2 * (W div 2)})
                     (\<lambda>i. luma_at aData (i mod W) (i div W))
                     (\<lambda>i. U420_at aData w h (i mod (W div 2)) (i div (W div 2)))
                     (\<lambda>i. V420_at aData w h (i mod (W div 2)) (i div (W div 2)))
                     (visible w h) st0 t"
      by blast
    have py: "plane_is (yuv_y t) W H (luma_visible w h) (luma_at aData)"
      by (rule upd_rel_plane [where S = "\<Union>y\<in>iters 2 0 h. \<Union>x\<in>iters 2 0 w. Y420_cell w h W y x"])
         (use fr W Y420_mem [OF _ _ _ W(1)] in
           \<open>simp_all add: frame_rel_def st0 zeros_def luma_visible_def\<close>)
    have pu: "plane_is (yuv_u t) (W div 2) (H div 2) (chroma_visible f w h) (U420_at aData w h)"
      by (rule upd_rel_plane [where S = "\<Union>y\<in>iters 2 0 h. \<Union>x\<in>iters 2 0 w. {x div 2 + y div 2 * (W div 2)}"])
         (use fr W2 C420_mem [OF _ _ _ W2(1)] in
           \<open>simp_all add: frame_rel_def st0 zeros_def a chroma_visible_def chroma_width_def chroma_height_def\<close>)
    have pv: "plane_is (yuv_v t) (W div 2) (H div 2) (chroma_visible f w h) (V420_at aData w h)"
      by (rule upd_rel_plane [where S = "\<Union>y\<in>iters 2 0 h. \<Union>x\<in>iters 2 0 w. {x div 2 + y div 2 * (W div 2)}"])
         (use fr W2 C420_mem [OF _ _ _ W2(1)] in
           \<open>simp_all add: frame_rel_def st0 zeros_def a chroma_visible_def chroma_width_def chroma_height_def\<close>)
    have lg: "set (sampled t) \<subseteq> visible w h"
      using fr by (auto simp: frame_rel_def st0)
    have fu: "U_at YCbCrSubsampleRatio420 aData w h = U420_at aData w h"
        "V_at YCbCrSubsampleRatio420 aData w h = V420_at aData w h"
      by (simp_all add: fun_eq_iff U_at_def V_at_def)
    show ?thesis
      using t py pu pv lg by (simp add: a chroma_width_def chroma_height_def fu)
  next
    case b
    have len: "lens st0 = (nat (W * H), nat (W * H), nat (W * H))"
      by (simp add: lens_def st0 b chroma_width_def chroma_height_def zeros_def)
    from convert444_frame [OF W(1,2) len, of aData] obtain t
      where t: "convert444 aData w h W st0 = Inr t"
        and fr: "frame_rel (\<Union>y\<in>iters 1 0 h. \<Union>x\<in>iters 1 0 w. {x + y * W})
                     (\<Union>y\<in>iters 1 0 h. \<Union>x\<in>iters 1 0 w. {x + y * W})
                     (\<lambda>i. luma_at aData (i mod W) (i div W))
                     (\<lambda>i. U444_at aData (i mod W) (i div W))
                     (\<lambda>i. V444_at aData (i mod W) (i div W))
                     (visible w h) st0 t"
      by blast
    have py: "plane_is (yuv_y t) W H (luma_visible w h) (luma_at aData)"
      by (rule upd_rel_plane [where S = "\<Union>y\<in>iters 1 0 h. \<Union>x\<in>iters 1 0 w. {x + y * W}"])
         (use fr W Y444_mem [OF _ _ _ W(1)] in
           \<open>simp_all add: frame_rel_def st0 zeros_def luma_visible_def\<close>)
    have pu: "plane_is (yuv_u t) W H (chroma_visible f w h) (U444_at aData)"
      by (rule upd_rel_plane [where S = "\<Union>y\<in>iters 1 0 h. \<Union>x\<in>iters 1 0 w. {x + y * W}"])
         (use fr W Y444_mem [OF _ _ _ W(1)] in
           \<open>simp_all add: frame_rel_def st0 zeros_def b chroma_visible_def chroma_width_def chroma_height_def\<close>)
    have pv: "plane_is (yuv_v t) W H (chroma_visible f w h) (V444_at aData)"
      by (rule upd_rel_plane [where S = "\<Union>y\<in>iters 1 0 h. \<Union>x\<in>iters 1 0 w. {x + y * W}"])
         (use fr W Y444_mem [OF _ _ _ W(1)] in
           \<open>simp_all add: frame_rel_def st0 zeros_def b chroma_visible_def chroma_width_def chroma_height_def\<close>)
    have lg: "set (sampled t) \<subseteq> visible w h"
      using fr by (auto simp: frame_rel_def st0)
    have fu: "U_at YCbCrSubsampleRatio444 aData w h = U444_at aData"
        "V_at YCbCrSubsampleRatio444 aData w h = V444_at aData"
      by (simp_all add: fun_eq_iff U_at_def V_at_def)
    show ?thesis
      using t py pu pv lg by (simp add: b chroma_width_def chroma_height_def fu)
  next
    case c
    have len: "lens st0 = (nat (W * H), nat (W div 2 * H), nat (W div 2 * H))"
      by (simp add: lens_def st0 c chroma_width_def chroma_height_def zeros_def)
    from uvs c have uvs': "GetUVStride v = Inr (W div 2)" by (simp add: chroma_width_def)
    from convert422_frame [OF W(1-3) uvs' len, of aData] obtain t
      where t: "convert422 aData v w h W st0 = Inr t"
        and fr: "frame_rel (\<Union>y\<in>iters 1 0 h. \<Union>x\<in>iters 2 0 w. Y422_cell w W y x)
                     (\<Union>y\<in>iters 1 0 h. \<Union>x\<in>iters 2 0 w. {x div 2 + y * (W div 2)})
                     (\<lambda>i. luma_at aData (i mod W) (i div W))
                     (\<lambda>i. U422_at aData w (i mod (W div 2)) (i div (W div 2)))
                     (\<lambda>i. V422_at aData w (i mod (W div 2)) (i div (W div 2)))
                     (visible w h) st0 t"
      by blast
    have py: "plane_is (yuv_y t) W H (luma_visible w h) (luma_at aData)"
      by (rule upd_rel_plane [where S = "\<Union>y\<in>iters 1 0 h. \<Union>x\<in>iters 2 0 w. Y422_cell w W y x"])
         (use fr W Y422_mem [OF _ _ _ W(1)] in
           \<open>simp_all add: frame_rel_def st0 zeros_def luma_visible_def\<close>)
    have pu: "plane_is (yuv_u t) (W div 2) H (chroma_visible f w h) (U422_at aData w)"
      by (rule upd_rel_plane [where S = "\<Union>y\<in>iters 1 0 h. \<Union>x\<in>iters 2 0 w. {x div 2 + y * (W div 2)}"])
         (use fr W W2 C422_mem [OF _ _ _ W2(1)] in
           \<open>simp_all add: frame_rel_def st0 zeros_def c chroma_visible_def chroma_width_def chroma_height_def\<close>)
    have pv: "plane_is (yuv_v t) (W div 2) H (chroma_visible f w h) (V422_at aData w)"
      by (rule upd_rel_plane [where S = "\<Union>y\<in>iters 1 0 h. \<Union>x\<in>iters 2 0 w. {x div 2 + y * (W div 2)}"])
         (use fr W W2 C422_mem [OF _ _ _ W2(1)] in
           \<open>simp_all add: frame_rel_def st0 zeros_def c chroma_visible_def chroma_width_def chroma_height_def\<close>)
    have lg: "set (sampled t) \<subseteq> visible w h"
      using fr by (auto simp: frame_rel_def st0)
    have fu: "U_at YCbCrSubsampleRatio422 aData w h = U422_at aData w"
        "V_at YCbCrSubsampleRatio422 aData w h = V422_at aData w"
      by (simp_all add: fun_eq_iff U_at_def V_at_def)
    show ?thesis
      using t py pu pv lg by (simp add: c chroma_width_def chroma_height_def fu)
  qed
qed

lemma in_range_pad:
  assumes "in_range aData"
  defines "w \<equiv> Dx (Bounds aData)" and "h \<equiv> Dy (Bounds aData)"
  shows "w \<le> pad16 w" "h \<le> pad16 h" "even (pad16 w)" "even (pad16 h)"
    "0 \<le> pad16 w" "0 \<le> pad16 h" "pad16 w < 2 ^ 31" "pad16 h < 2 ^ 31"
    "uint ((word_of_int (w + 15) :: uint32) AND NOT 0xf) = pad16 w"
    "uint ((word_of_int (h + 15) :: uint32) AND NOT 0xf) = pad16 h"
proof -
  from assms have r: "0 \<le> w" "w + 15 < 2 ^ 31" "0 \<le> h" "h + 15 < 2 ^ 31"
    by (simp_all add: in_range_def)
  have p: "16 dvd pad16 w" "w \<le> pad16 w" "pad16 w < w + 16"
          "16 dvd pad16 h" "h \<le> pad16 h" "pad16 h < h + 16"
    using pad16_props [of w] pad16_props [of h] by simp_all
  show "w \<le> pad16 w" "h \<le> pad16 h" by (rule p)+
  show "even (pad16 w)" "even (pad16 h)" using p(1,4) by auto
  show "0 \<le> pad16 w" "0 \<le> pad16 h" "pad16 w < 2 ^ 31" "pad16 h < 2 ^ 31"
    using p r by auto
  show "uint ((word_of_int (w + 15) :: uint32) AND NOT 0xf) = pad16 w"
    by (rule pad16_word) (use r in simp_all)
  show "uint ((word_of_int (h + 15) :: uint32) AND NOT 0xf) = pad16 h"
    by (rule pad16_word) (use r in simp_all)
qed

lemma chroma_dims_range:
  assumes "0 \<le> W" "W < 2 ^ 31" "0 \<le> H" "H < 2 ^ 31"
  shows "0 \<le> chroma_width f W" "chroma_width f W < 2 ^ 31"
        "0 \<le> chroma_height f H" "chroma_height f H < 2 ^ 31"
  using assms by (auto simp: chroma_width_def chroma_height_def)

lemma and_then_assoc:
  "and_then (and_then m f) g = and_then m (\<lambda>x. and_then (f x) g)"
  by (cases m) simp_all

lemma Convert_nil:
  assumes "supported f" "fValue_yuv v = None"
  shows "ConvertFromRasterImage Ptr f aData v = Inl NilDereference"
  using assms
  by (simp add: ConvertFromRasterImage_def supported_def Let_def SetYWidth_def)

lemma Convert_unsupported:
  assumes "\<not> supported f"
  shows "ConvertFromRasterImage Ptr f aData v = Inr (False, v, [])"
  using assms by (simp add: ConvertFromRasterImage_def supported_def)

lemma Convert_pre:
  assumes f: "supported f" and live: "fValue_yuv v = Some c" and rng: "in_range aData"
  defines "w \<equiv> Dx (Bounds aData)" and "h \<equiv> Dy (Bounds aData)"
  defines "W \<equiv> pad16 w" and "H \<equiv> pad16 h"
  shows "ConvertFromRasterImage Ptr f aData v =
     and_then (Ptr (zeros (W * H))) (\<lambda>py.
     and_then (Ptr (zeros (chroma_width f W * chroma_height f H))) (\<lambda>pu.
     and_then (Ptr (zeros (chroma_width f W * chroma_height f H))) (\<lambda>pv.
     and_then (convert_loops f aData
                 (v\<lparr>fValue_yuv := Some ((sized f W H c)\<lparr>y_ptr := py, u_ptr := pu, v_ptr := pv\<rparr>),
                    fyData := zeros (W * H),
                    fuData := zeros (chroma_width f W * chroma_height f H),
                    fvData := zeros (chroma_width f W * chroma_height f H)\<rparr>)
                 w h W
                 \<lparr>yuv_y = zeros (W * H),
                  yuv_u = zeros (chroma_width f W * chroma_height f H),
                  yuv_v = zeros (chroma_width f W * chroma_height f H), sampled = []\<rparr>) (\<lambda>st.
     Inr (True,
          v\<lparr>fValue_yuv := Some ((sized f W H c)\<lparr>y_ptr := py, u_ptr := pu, v_ptr := pv\<rparr>),
            fyData := yuv_y st, fuData := yuv_u st, fvData := yuv_v st\<rparr>,
          sampled st)))))"
proof -
  note p = in_range_pad [OF rng, folded w_def h_def, folded W_def H_def]
  note q = chroma_dims_range [OF p(5) p(7) p(6) p(8), of f]
  have s: "sint (word_of_int W :: C_int) = W" "sint (word_of_int H :: C_int) = H"
    using p by (simp_all add: sint_small)
  have nn: "\<not> W * H < 0"
    using p by (simp_all add: not_less)
  obtain a1 a2 a3 a4 a5 a6 a7 a8 a9 where c: "c = \<lparr>y_width = a1, y_height = a2, y_stride = a3,
      uv_width = a4, uv_height = a5, uv_stride = a6, y_ptr = a7, u_ptr = a8, v_ptr = a9\<rparr>"
    by (cases c) simp
  obtain d1 d2 d3 own where v: "v = \<lparr>fValue_yuv = Some c, fyData = d1, fuData = d2,
      fvData = d3, fOwnData = own\<rparr>"
    using live by (cases v) simp
  have un: "\<not> \<not> (f = YCbCrSubsampleRatio444 \<or> f = YCbCrSubsampleRatio422 \<or> f = YCbCrSubsampleRatio420)"
    using f by (simp add: supported_def)
  have s2: "sint (word_of_int (W div 2) :: C_int) = W div 2"
      "sint (word_of_int (H div 2) :: C_int) = H div 2"
    using p by (simp_all add: sint_small)
  have nn2: "\<not> W div 2 * (H div 2) < 0" "\<not> W div 2 * H < 0"
    using p by (simp_all add: not_less)
  note defs = SetYWidth_def SetYHeight_def SetYStride_def SetUVWidth_def
          SetUVHeight_def SetUVStride_def GetYStride_def GetYHeight_def GetUVWidth_def
          GetUVStride_def GetUVHeight_def SetYData_def SetUData_def SetVData_def
          make_bytes_def drop_bit_eq_div sized_def convert_loops_def zeros_def
          chroma_width_def chroma_height_def and_then_assoc
  consider (a) "f = YCbCrSubsampleRatio420" | (b) "f = YCbCrSubsampleRatio444"
    | (c) "f = YCbCrSubsampleRatio422"
    using f by (auto simp: supported_def)
  then show ?thesis
  proof cases
    case a
    show ?thesis
      unfolding ConvertFromRasterImage_def Let_def w_def [symmetric] h_def [symmetric] p(9,10)
      by (simp add: a v c defs s s2 nn nn2)
  next
    case b
    show ?thesis
      unfolding ConvertFromRasterImage_def Let_def w_def [symmetric] h_def [symmetric] p(9,10)
      by (simp add: b v c defs s s2 nn nn2)
  next
    case c
    show ?thesis
      unfolding ConvertFromRasterImage_def Let_def w_def [symmetric] h_def [symmetric] p(9,10)
      by (simp add: c v defs s s2 nn nn2) (simp add: \<open>c = _\<close>)
  qed
qed

lemma Convert_Inr:
  assumes f: "supported f" and rng: "in_range aData"
    and run: "ConvertFromRasterImage Ptr f aData v = Inr (b, v', log)"
  defines "w \<equiv> Dx (Bounds aData)" and "h \<equiv> Dy (Bounds aData)"
  defines "W \<equiv> pad16 w" and "H \<equiv> pad16 h"
  shows "b \<and>
     (\<exists>c py pu pv. fValue_yuv v = Some c \<and>
        fValue_yuv v' = Some ((sized f W H c)\<lparr>y_ptr := py, u_ptr := pu, v_ptr := pv\<rparr>)) \<and>
     fOwnData v' = fOwnData v \<and>
     ptr_returns Ptr (zeros (W * H)) \<and>
     ptr_returns Ptr (zeros (chroma_width f W * chroma_height f H)) \<and>
     plane_is (fyData v') W H (luma_visible w h) (luma_at aData) \<and>
     plane_is (fuData v') (chroma_width f W) (chroma_height f H)
        (chroma_visible f w h) (U_at f aData w h) \<and>
     plane_is (fvData v') (chroma_width f W) (chroma_height f H)
        (chroma_visible f w h) (V_at f aData w h) \<and>
     set log \<subseteq> visible w h"
proof (cases "fValue_yuv v")
  case None
  with Convert_nil [OF f None, of Ptr aData] run show ?thesis by simp
next
  case (Some c)
  note p = in_range_pad [OF rng, folded w_def h_def, folded W_def H_def]
  note q = chroma_dims_range [OF p(5) p(7) p(6) p(8), of f]
  let ?n = "chroma_width f W * chroma_height f H"
  let ?st0 = "\<lparr>yuv_y = zeros (W * H), yuv_u = zeros ?n, yuv_v = zeros ?n, sampled = []\<rparr>"
  from run [unfolded Convert_pre [OF f Some rng, folded w_def h_def, folded W_def H_def]]
  obtain py pu pv st where py: "Ptr (zeros (W * H)) = Inr py"
    and pu: "Ptr (zeros ?n) = Inr pu" and pv: "Ptr (zeros ?n) = Inr pv"
    and st: "convert_loops f aData
                 (v\<lparr>fValue_yuv := Some ((sized f W H c)\<lparr>y_ptr := py, u_ptr := pu, v_ptr := pv\<rparr>),
                    fyData := zeros (W * H), fuData := zeros ?n, fvData := zeros ?n\<rparr>)
                 w h W ?st0 = Inr st"
    and res: "b = True"
      "v' = v\<lparr>fValue_yuv := Some ((sized f W H c)\<lparr>y_ptr := py, u_ptr := pu, v_ptr := pv\<rparr>),
            fyData := yuv_y st, fuData := yuv_u st, fvData := yuv_v st\<rparr>"
      "log = sampled st"
    by (auto simp: and_then_Inr_iff)
  have uvs: "GetUVStride (v\<lparr>fValue_yuv := Some ((sized f W H c)\<lparr>y_ptr := py, u_ptr := pu, v_ptr := pv\<rparr>),
                    fyData := zeros (W * H), fuData := zeros ?n, fvData := zeros ?n\<rparr>)
             = Inr (chroma_width f W)"
    using q by (simp add: GetUVStride_def sized_def sint_small)
  from loops_planes [OF f p(1-6) uvs refl, of aData] st
  have pl: "plane_is (yuv_y st) W H (luma_visible w h) (luma_at aData)"
       "plane_is (yuv_u st) (chroma_width f W) (chroma_height f H)
             (chroma_visible f w h) (U_at f aData w h)"
       "plane_is (yuv_v st) (chroma_width f W) (chroma_height f H)
             (chroma_visible f w h) (V_at f aData w h)"
       "set (sampled st) \<subseteq> visible w h"
    by (auto simp: convert_loops_def)
  show ?thesis
    using pl Some py pu by (auto simp: res ptr_returns_def)
qed

lemma Convert_total:
  assumes f: "supported f" and rng: "in_range aData" and live: "fValue_yuv v = Some c"
    and py: "ptr_returns Ptr (zeros (pad16 (Dx (Bounds aData)) * pad16 (Dy (Bounds aData))))"
    and pu: "ptr_returns Ptr (zeros (chroma_width f (pad16 (Dx (Bounds aData)))
                                     * chroma_height f (pad16 (Dy (Bounds aData)))))"
  shows "\<exists>v' log. ConvertFromRasterImage Ptr f aData v = Inr (True, v', log)"
proof -
  define w where "w = Dx (Bounds aData)"
  define h where "h = Dy (Bounds aData)"
  define W where "W = pad16 w"
  define H where "H = pad16 h"
  note p = in_range_pad [OF rng, folded w_def h_def, folded W_def H_def]
  note q = chroma_dims_range [OF p(5) p(7) p(6) p(8), of f]
  let ?n = "chroma_width f W * chroma_height f H"
  from py pu obtain a b where a: "Ptr (zeros (W * H)) = Inr a" and b: "Ptr (zeros ?n) = Inr b"
    by (auto simp: ptr_returns_def W_def H_def w_def h_def)
  have uvs: "GetUVStride (v\<lparr>fValue_yuv := Some ((sized f W H c)\<lparr>y_ptr := a, u_ptr := b, v_ptr := b\<rparr>),
                    fyData := zeros (W * H), fuData := zeros ?n, fvData := zeros ?n\<rparr>)
             = Inr (chroma_width f W)"
    using q by (simp add: GetUVStride_def sized_def sint_small)
  from loops_planes [OF f p(1-6) uvs refl, of aData] obtain t
    where "convert_loops f aData
                 (v\<lparr>fValue_yuv := Some ((sized f W H c)\<lparr>y_ptr := a, u_ptr := b, v_ptr := b\<rparr>),
                    fyData := zeros (W * H), fuData := zeros ?n, fvData := zeros ?n\<rparr>)
                 w h W \<lparr>yuv_y = zeros (W * H), yuv_u = zeros ?n, yuv_v = zeros ?n, sampled = []\<rparr>
           = Inr t"
    by (auto simp: convert_loops_def)
  then show ?thesis
    unfolding Convert_pre [OF f live rng, folded w_def h_def, folded W_def H_def]
    by (simp add: a b)
qed

section \<open>Properties of the converter\<close>

lemma returning_Ptr_returns [simp]: "ptr_returns returning_Ptr xs"
  by (simp add: ptr_returns_def returning_Ptr_def)

lemma getters_sized:
  assumes "fValue_yuv v' = Some ((sized f W H c)\<lparr>y_ptr := py, u_ptr := pu, v_ptr := pv\<rparr>)"
    and "0 \<le> W" "W < 2 ^ 31" "0 \<le> H" "H < 2 ^ 31"
  shows "GetYWidth v' = Inr W" "GetYStride v' = Inr W" "GetYHeight v' = Inr H"
    "GetUVWidth v' = Inr (chroma_width f W)" "GetUVStride v' = Inr (chroma_width f W)"
    "GetUVHeight v' = Inr (chroma_height f H)"
  using assms chroma_dims_range [OF assms(2-5), of f]
  by (simp_all add: GetYWidth_def GetYStride_def GetYHeight_def GetUVWidth_def GetUVStride_def
        GetUVHeight_def sized_def sint_small)

lemma Convert_True_supported:
  assumes "ConvertFromRasterImage Ptr f aData v = Inr (True, v', log)"
  shows "supported f"
  using assms Convert_unsupported [of f Ptr aData v] by auto

text \<open>
  Claim C1.  For every image in range and every chroma format, a call of
  \<^verbatim>\<open>ConvertFromRasterImage\<close> that returns true leaves a buffer whose luma width and
  stride are the image width rounded up to the next multiple of 16, \<open>(w + 15) AND NOT 15\<close>,
  and whose luma height is the image height rounded up in the same way; whose chroma
  width and stride are the luma width at 4:4:4 and half of it at 4:2:2 and 4:2:0; whose
  chroma height is half the luma height at 4:2:0 and the luma height otherwise; and whose
  three planes hold exactly stride times height bytes.  This covers odd dimensions and
  the image of one pixel.
\<close>

theorem ConvertFromRasterImage_plane_sizes:
  assumes rng: "in_range aData"
    and run: "ConvertFromRasterImage Ptr chroma_format aData v = Inr (True, v', log)"
  shows "GetYWidth v' = Inr (pad16 (Dx (Bounds aData))) \<and>
         GetYStride v' = Inr (pad16 (Dx (Bounds aData))) \<and>
         GetYHeight v' = Inr (pad16 (Dy (Bounds aData))) \<and>
         16 dvd pad16 (Dx (Bounds aData)) \<and>
         Dx (Bounds aData) \<le> pad16 (Dx (Bounds aData)) \<and>
         pad16 (Dx (Bounds aData)) < Dx (Bounds aData) + 16 \<and>
         16 dvd pad16 (Dy (Bounds aData)) \<and>
         Dy (Bounds aData) \<le> pad16 (Dy (Bounds aData)) \<and>
         pad16 (Dy (Bounds aData)) < Dy (Bounds aData) + 16 \<and>
         GetUVWidth v' = Inr (chroma_width chroma_format (pad16 (Dx (Bounds aData)))) \<and>
         GetUVStride v' = Inr (chroma_width chroma_format (pad16 (Dx (Bounds aData)))) \<and>
         GetUVHeight v' = Inr (chroma_height chroma_format (pad16 (Dy (Bounds aData)))) \<and>
         int (length (fyData v')) = pad16 (Dx (Bounds aData)) * pad16 (Dy (Bounds aData)) \<and>
         int (length (fuData v')) =
           chroma_width chroma_format (pad16 (Dx (Bounds aData)))
           * chroma_height chroma_format (pad16 (Dy (Bounds aData))) \<and>
         int (length (fvData v')) =
           chroma_width chroma_format (pad16 (Dx (Bounds aData)))
           * chroma_height chroma_format (pad16 (Dy (Bounds aData)))"
proof -
  note f = Convert_True_supported [OF run]
  note p = in_range_pad [OF rng]
  from Convert_Inr [OF f rng run] obtain c py pu pv
    where hdr: "fValue_yuv v' = Some ((sized chroma_format (pad16 (Dx (Bounds aData)))
                   (pad16 (Dy (Bounds aData))) c)\<lparr>y_ptr := py, u_ptr := pu, v_ptr := pv\<rparr>)"
      and pl: "plane_is (fyData v') (pad16 (Dx (Bounds aData))) (pad16 (Dy (Bounds aData)))
                 (luma_visible (Dx (Bounds aData)) (Dy (Bounds aData))) (luma_at aData)"
        "plane_is (fuData v') (chroma_width chroma_format (pad16 (Dx (Bounds aData))))
           (chroma_height chroma_format (pad16 (Dy (Bounds aData))))
           (chroma_visible chroma_format (Dx (Bounds aData)) (Dy (Bounds aData)))
           (U_at chroma_format aData (Dx (Bounds aData)) (Dy (Bounds aData)))"
        "plane_is (fvData v') (chroma_width chroma_format (pad16 (Dx (Bounds aData))))
           (chroma_height chroma_format (pad16 (Dy (Bounds aData))))
           (chroma_visible chroma_format (Dx (Bounds aData)) (Dy (Bounds aData)))
           (V_at chroma_format aData (Dx (Bounds aData)) (Dy (Bounds aData)))"
    by blast
  note g = getters_sized [OF hdr p(5) p(7) p(6) p(8)]
  from g pl pad16_props [of "Dx (Bounds aData)"] pad16_props [of "Dy (Bounds aData)"]
  show ?thesis
    by (simp add: plane_is_def)
qed

lemma red_pixel_facts:
  "in_range red_pixel" "Dx (Bounds red_pixel) = 1" "Dy (Bounds red_pixel) = 1"
  by (simp_all add: in_range_def red_pixel_def Dx_def Dy_def)

lemma pad16_1 [simp]: "pad16 1 = 16"
  by (simp add: pad16_eq)

theorem ConvertFromRasterImage_plane_sizes_witness:
  "\<exists>v' log.
     ConvertFromRasterImage returning_Ptr YCbCrSubsampleRatio420 red_pixel NewTheoraYUVbuffer
       = Inr (True, v', log) \<and>
     GetYWidth v' = Inr 16 \<and> GetYStride v' = Inr 16 \<and> GetYHeight v' = Inr 16 \<and>
     GetUVWidth v' = Inr 8 \<and> GetUVStride v' = Inr 8 \<and> GetUVHeight v' = Inr 8 \<and>
     length (fyData v') = 256 \<and> length (fuData v') = 64 \<and> length (fvData v') = 64"
proof -
  have f: "supported YCbCrSubsampleRatio420" by (simp add: supported_def)
  from Convert_total [OF f red_pixel_facts(1), of NewTheoraYUVbuffer _ returning_Ptr]
  obtain v' log where run:
    "ConvertFromRasterImage returning_Ptr YCbCrSubsampleRatio420 red_pixel NewTheoraYUVbuffer
       = Inr (True, v', log)"
    by (auto simp: NewTheoraYUVbuffer_def)
  from ConvertFromRasterImage_plane_sizes [OF red_pixel_facts(1) run]
  have "GetYWidth v' = Inr 16 \<and> GetYStride v' = Inr 16 \<and> GetYHeight v' = Inr 16 \<and>
     GetUVWidth v' = Inr 8 \<and> GetUVStride v' = Inr 8 \<and> GetUVHeight v' = Inr 8 \<and>
     length (fyData v') = 256 \<and> length (fuData v') = 64 \<and> length (fvData v') = 64"
    by (simp add: red_pixel_facts chroma_width_def chroma_height_def)
  with run show ?thesis by blast
qed










lemma red_17x15_facts:
  "in_range red_17x15" "Dx (Bounds red_17x15) = 17" "Dy (Bounds red_17x15) = 15"
  "luma_at red_17x15 x y = 81"
  by (simp_all add: in_range_def red_17x15_def Dx_def Dy_def luma_at_def luma_def clamp_def)

lemma pad16_17_15 [simp]: "pad16 17 = 32" "pad16 15 = 16"
  by (simp_all add: pad16_eq)

text \<open>
  Claim C3.  Converting the 17 by 15 image of solid colour (255, 0, 0) at 4:2:0 gives a
  luma plane of width and stride 32 and height 16, of 512 bytes, that holds
  \<open>(65481 * 255 + 4207500) div 255000\<close>, clamped, which is 81, at every coordinate
  inside the 17 by 15 window and zero at every other one.  The conversion returns true
  on every allocated buffer on which \<^verbatim>\<open>OGG.Ptr\<close> returns for the new planes.
\<close>

theorem red_17x15_luma_plane:
  "(\<forall>v' log b.
      ConvertFromRasterImage Ptr YCbCrSubsampleRatio420 red_17x15 v = Inr (b, v', log) \<longrightarrow>
        b \<and> GetYWidth v' = Inr 32 \<and> GetYStride v' = Inr 32 \<and> GetYHeight v' = Inr 16
        \<and> length (fyData v') = 32 * 16
        \<and> (\<forall>c r. 0 \<le> c \<and> c < 32 \<and> 0 \<le> r \<and> r < 16 \<longrightarrow>
              fyData v' ! nat (c + r * 32) =
                (if c < 17 \<and> r < 15 then clamp ((65481 * 255 + 4207500) div 255000) else 0)))
   \<and> clamp ((65481 * 255 + 4207500) div 255000) = 81
   \<and> (fValue_yuv v \<noteq> None \<and> ptr_returns Ptr (zeros 512) \<and> ptr_returns Ptr (zeros 128) \<longrightarrow>
        (\<exists>v' log. ConvertFromRasterImage Ptr YCbCrSubsampleRatio420 red_17x15 v
                     = Inr (True, v', log)))"
proof -
  have f: "supported YCbCrSubsampleRatio420" by (simp add: supported_def)
  have k: "clamp ((65481 * 255 + 4207500) div 255000) = 81"
    by (simp add: clamp_def)
  have main: "b \<and> GetYWidth v' = Inr 32 \<and> GetYStride v' = Inr 32 \<and> GetYHeight v' = Inr 16
        \<and> length (fyData v') = 32 * 16
        \<and> (\<forall>c r. 0 \<le> c \<and> c < 32 \<and> 0 \<le> r \<and> r < 16 \<longrightarrow>
              fyData v' ! nat (c + r * 32) =
                (if c < 17 \<and> r < 15 then clamp ((65481 * 255 + 4207500) div 255000) else 0))"
    if run: "ConvertFromRasterImage Ptr YCbCrSubsampleRatio420 red_17x15 v = Inr (b, v', log)"
    for v' log b
  proof -
    from Convert_Inr [OF f red_17x15_facts(1) run] obtain c py pu pv
      where b: b
        and hdr: "fValue_yuv v' = Some ((sized YCbCrSubsampleRatio420 32 16 c)
                    \<lparr>y_ptr := py, u_ptr := pu, v_ptr := pv\<rparr>)"
        and pl: "plane_is (fyData v') 32 16 (luma_visible 17 15) (luma_at red_17x15)"
      by (auto simp: red_17x15_facts)
    from getters_sized [OF hdr] pl b show ?thesis
      by (simp add: plane_is_def luma_visible_def red_17x15_facts clamp_def)
  qed
  have tot: "\<exists>v' log. ConvertFromRasterImage Ptr YCbCrSubsampleRatio420 red_17x15 v
                     = Inr (True, v', log)"
    if a: "fValue_yuv v \<noteq> None \<and> ptr_returns Ptr (zeros 512) \<and> ptr_returns Ptr (zeros 128)"
  proof -
    from a obtain c where "fValue_yuv v = Some c" by auto
    with a show ?thesis
      by (intro Convert_total [OF f red_17x15_facts(1)])
         (simp_all add: red_17x15_facts chroma_width_def chroma_height_def)
  qed
  from main k tot show ?thesis by blast
qed

theorem red_17x15_luma_plane_witness:
  "\<exists>v' log. ConvertFromRasterImage returning_Ptr YCbCrSubsampleRatio420 red_17x15
               NewTheoraYUVbuffer = Inr (True, v', log)
     \<and> fyData v' ! nat (16 + 14 * 32) = 81 \<and> fyData v' ! nat (17 + 14 * 32) = 0
     \<and> fyData v' ! nat (0 + 15 * 32) = 0"
proof -
  have l: "fValue_yuv NewTheoraYUVbuffer \<noteq> None" by (simp add: NewTheoraYUVbuffer_def)
  note t = red_17x15_luma_plane [of returning_Ptr NewTheoraYUVbuffer]
  from t l obtain v' log where run:
    "ConvertFromRasterImage returning_Ptr YCbCrSubsampleRatio420 red_17x15 NewTheoraYUVbuffer
       = Inr (True, v', log)"
    by auto
  with t have a: "\<forall>c r. 0 \<le> c \<and> c < 32 \<and> 0 \<le> r \<and> r < 16 \<longrightarrow>
              fyData v' ! nat (c + r * 32) =
                (if c < 17 \<and> r < 15 then (81 :: byte) else 0)"
    by auto
  from a [rule_format, of 16 14] a [rule_format, of 17 14] a [rule_format, of 0 15] run
  show ?thesis by auto
qed

section \<open>The chroma average\<close>

lemma ucast_byte: "(ucast (r :: byte) :: uint32) = word_of_int (uint r)"
  by simp

lemma uint_byte_bounds: "0 \<le> uint (r :: byte)" "uint r \<le> 255"
  using uint_lt2p [of r] by simp_all

lemma cb_uint:
  fixes r g b :: byte
  shows "uint (cb_term (ucast r) (ucast g) (ucast b))
           = 29032005 - 33488 * uint r - 65744 * uint g + 99232 * uint b"
proof -
  let ?k = "29032005 - 33488 * uint r - 65744 * uint g + 99232 * uint b"
  have w: "cb_term (ucast r) (ucast g) (ucast b) = word_of_int ?k"
    unfolding cb_term_def ucast_byte by (simp add: word_of_int_hom_syms)
  have p: "(2 :: int) ^ LENGTH(32) = 4294967296" by simp
  have k: "0 \<le> ?k" "?k < 2 ^ LENGTH(32)"
    unfolding p
    using uint_byte_bounds [of r] uint_byte_bounds [of g] uint_byte_bounds [of b] by linarith+
  have "uint (word_of_int ?k :: uint32) = ?k mod 2 ^ LENGTH(32)"
    by (rule uint_word_of_int)
  also have "\<dots> = ?k"
    using k by (rule mod_pos_pos_trivial)
  finally show ?thesis
    unfolding w .
qed

lemma cr_uint:
  fixes r g b :: byte
  shows "uint (cr_term (ucast r) (ucast g) (ucast b))
           = 157024 * uint r - 131488 * uint g - 25536 * uint b + 45940035"
proof -
  let ?k = "157024 * uint r - 131488 * uint g - 25536 * uint b + 45940035"
  have w: "cr_term (ucast r) (ucast g) (ucast b) = word_of_int ?k"
    unfolding cr_term_def ucast_byte by (simp add: word_of_int_hom_syms)
  have p: "(2 :: int) ^ LENGTH(32) = 4294967296" by simp
  have k: "0 \<le> ?k" "?k < 2 ^ LENGTH(32)"
    unfolding p
    using uint_byte_bounds [of r] uint_byte_bounds [of g] uint_byte_bounds [of b] by linarith+
  have "uint (word_of_int ?k :: uint32) = ?k mod 2 ^ LENGTH(32)"
    by (rule uint_word_of_int)
  also have "\<dots> = ?k"
    using k by (rule mod_pos_pos_trivial)
  finally show ?thesis
    unfolding w .
qed

lemma uint_add_small:
  fixes x y :: uint32
  assumes "uint x + uint y < 4294967296"
  shows "uint (x + y) = uint x + uint y"
  using assms by (simp add: uint_add_lem [symmetric])

lemma cb_shape:
  fixes r g b :: byte
  shows "\<exists>m. uint (cb_term (ucast r) (ucast g) (ucast b)) = 8 * m + 5 \<and> 0 \<le> m \<and> m \<le> 7000000"
proof -
  let ?m = "3629000 - 4186 * uint r - 8218 * uint g + 12404 * uint b"
  have "uint (cb_term (ucast r) (ucast g) (ucast b)) = 8 * ?m + 5"
    unfolding cb_uint by simp
  moreover have "0 \<le> ?m" "?m \<le> 7000000"
    using uint_byte_bounds [of r] uint_byte_bounds [of g] uint_byte_bounds [of b] by linarith+
  ultimately show ?thesis by blast
qed

lemma cr_shape:
  fixes r g b :: byte
  shows "\<exists>m. uint (cr_term (ucast r) (ucast g) (ucast b)) = 8 * m + 3 \<and> 0 \<le> m \<and> m \<le> 11000000"
proof -
  let ?m = "19628 * uint r - 16436 * uint g - 3192 * uint b + 5742504"
  have "uint (cr_term (ucast r) (ucast g) (ucast b)) = 8 * ?m + 3"
    unfolding cr_uint by simp
  moreover have "0 \<le> ?m" "?m \<le> 11000000"
    using uint_byte_bounds [of r] uint_byte_bounds [of g] uint_byte_bounds [of b] by linarith+
  ultimately show ?thesis by blast
qed

lemma cb_at_shape: "\<exists>m. uint (cb_at aData x y) = 8 * m + 5 \<and> 0 \<le> m \<and> m \<le> 7000000"
proof (cases "At aData x y")
  case (NRGBA r g b a)
  with cb_shape [of r g b] show ?thesis by (simp add: cb_at_def)
qed

lemma cr_at_shape: "\<exists>m. uint (cr_at aData x y) = 8 * m + 3 \<and> 0 \<le> m \<and> m \<le> 11000000"
proof (cases "At aData x y")
  case (NRGBA r g b a)
  with cr_shape [of r g b] show ?thesis by (simp add: cr_at_def)
qed

lemma half_odd_div: "(2 * n + 1) div (2 * q) = (2 * n) div (2 * q)" if "0 < q" for n q :: int
proof -
  have "(1 + 2 * n) div (2 * q) = n div q"
    using that by (intro pos_zdiv_mult_2) simp
  moreover have "(2 * n) div (2 * q) = n div q"
    by simp
  ultimately show ?thesis by (simp add: add.commute)
qed

lemma div4_8m5: "(8 * m + 5) div 4 = 2 * m + (1::int)"
  by presburger

lemma div4_8m3: "(8 * m + 3) div 4 = 2 * (m::int)"
  by presburger

lemma div2_8m5: "(8 * m + 5) div 2 = 4 * m + (2::int)"
  by presburger

lemma div2_8m3: "(8 * m + 3) div 2 = 4 * m + (1::int)"
  by presburger

lemma quarter_sum_cb:
  fixes a b c d :: uint32
  assumes a: "uint a = 8 * ma + 5" "0 \<le> ma" "ma \<le> 7000000"
    and b: "uint b = 8 * mb + 5" "0 \<le> mb" "mb \<le> 7000000"
    and c: "uint c = 8 * mc + 5" "0 \<le> mc" "mc \<le> 7000000"
    and d: "uint d = 8 * md + 5" "0 \<le> md" "md \<le> 7000000"
  shows "(a div 4 + b div 4 + c div 4 + d div 4) div 225930 = ((a + b + c + d) div 4) div 225930"
proof (rule word_uint_eqI)
  have q: "uint (a div 4) = 2 * ma + 1" "uint (b div 4) = 2 * mb + 1"
      "uint (c div 4) = 2 * mc + 1" "uint (d div 4) = 2 * md + 1"
    by (simp_all add: uint_div a(1) b(1) c(1) d(1) div4_8m5)
  have s1: "uint (a div 4 + b div 4) = 2 * ma + 2 * mb + 2"
    using a b by (subst uint_add_small) (simp_all add: q)
  have s2: "uint (a div 4 + b div 4 + c div 4) = 2 * ma + 2 * mb + 2 * mc + 3"
    using a b c by (subst uint_add_small) (simp_all add: q s1)
  have s3: "uint (a div 4 + b div 4 + c div 4 + d div 4) = 2 * ma + 2 * mb + 2 * mc + 2 * md + 4"
    using a b c d by (subst uint_add_small) (simp_all add: q s2)
  have t1: "uint (a + b) = 8 * ma + 8 * mb + 10"
    using a b by (subst uint_add_small) simp_all
  have t2: "uint (a + b + c) = 8 * ma + 8 * mb + 8 * mc + 15"
    using a b c by (subst uint_add_small) (simp_all add: t1)
  have t3: "uint (a + b + c + d) = 8 * ma + 8 * mb + 8 * mc + 8 * md + 20"
    using a b c d by (subst uint_add_small) (simp_all add: t2)
  have "(2 * (ma + mb + mc + md + 2) + 1) div (2 * 112965)
          = (2 * (ma + mb + mc + md + 2)) div (2 * 112965)"
    by (rule half_odd_div) simp
  then have h: "(2 * ma + 2 * mb + 2 * mc + 2 * md + 5) div 225930
          = (2 * ma + 2 * mb + 2 * mc + 2 * md + 4) div 225930"
    by (simp add: algebra_simps)
  have "(8 * ma + 8 * mb + 8 * mc + 8 * md + 20) div 4 = 2 * ma + 2 * mb + 2 * mc + 2 * md + 5"
    by presburger
  with h show "uint ((a div 4 + b div 4 + c div 4 + d div 4) div 225930)
           = uint ((a + b + c + d) div 4 div 225930)"
    by (simp add: uint_div s3 t3)
qed

lemma half_sum_cb:
  fixes a b :: uint32
  assumes a: "uint a = 8 * ma + 5" "0 \<le> ma" "ma \<le> 7000000"
    and b: "uint b = 8 * mb + 5" "0 \<le> mb" "mb \<le> 7000000"
  shows "(a div 2 + b div 2) div 225930 = ((a + b) div 2) div 225930"
proof (rule word_uint_eqI)
  have q: "uint (a div 2) = 4 * ma + 2" "uint (b div 2) = 4 * mb + 2"
    by (simp_all add: uint_div a(1) b(1) div2_8m5)
  have s1: "uint (a div 2 + b div 2) = 4 * ma + 4 * mb + 4"
    using a b by (subst uint_add_small) (simp_all add: q)
  have t1: "uint (a + b) = 8 * ma + 8 * mb + 10"
    using a b by (subst uint_add_small) simp_all
  have "(2 * (2 * ma + 2 * mb + 2) + 1) div (2 * 112965)
          = (2 * (2 * ma + 2 * mb + 2)) div (2 * 112965)"
    by (rule half_odd_div) simp
  then have h: "(4 * ma + 4 * mb + 5) div 225930 = (4 * ma + 4 * mb + 4) div 225930"
    by (simp add: algebra_simps)
  have "(8 * ma + 8 * mb + 10) div 2 = 4 * ma + 4 * mb + 5"
    by presburger
  with h show "uint ((a div 2 + b div 2) div 225930) = uint ((a + b) div 2 div 225930)"
    by (simp add: uint_div s1 t1)
qed

lemma half_sum_cr:
  fixes a b :: uint32
  assumes a: "uint a = 8 * ma + 3" "0 \<le> ma" "ma \<le> 11000000"
    and b: "uint b = 8 * mb + 3" "0 \<le> mb" "mb \<le> 11000000"
  shows "(a div 2 + b div 2) div 357510 = ((a + b) div 2) div 357510"
proof (rule word_uint_eqI)
  have q: "uint (a div 2) = 4 * ma + 1" "uint (b div 2) = 4 * mb + 1"
    by (simp_all add: uint_div a(1) b(1) div2_8m3)
  have s1: "uint (a div 2 + b div 2) = 4 * ma + 4 * mb + 2"
    using a b by (subst uint_add_small) (simp_all add: q)
  have t1: "uint (a + b) = 8 * ma + 8 * mb + 6"
    using a b by (subst uint_add_small) simp_all
  have "(2 * (2 * ma + 2 * mb + 1) + 1) div (2 * 178755)
          = (2 * (2 * ma + 2 * mb + 1)) div (2 * 178755)"
    by (rule half_odd_div) simp
  then have h: "(4 * ma + 4 * mb + 3) div 357510 = (4 * ma + 4 * mb + 2) div 357510"
    by (simp add: algebra_simps)
  have "(8 * ma + 8 * mb + 6) div 2 = 4 * ma + 4 * mb + 3"
    by presburger
  with h show "uint ((a div 2 + b div 2) div 357510) = uint ((a + b) div 2 div 357510)"
    by (simp add: uint_div s1 t1)
qed

lemma U420_same: "U420_at aData w h c r = U420_spec_at aData w h c r"
proof -
  obtain x y x1 y1 where xy: "x = 2 * c" "y = 2 * r" "x1 = x + booltoint (x + 1 < w)"
      "y1 = y + booltoint (y + 1 < h)"
    by simp
  obtain ma mb mc md where
      "uint (cb_at aData x y) = 8 * ma + 5 \<and> 0 \<le> ma \<and> ma \<le> 7000000"
      "uint (cb_at aData x1 y) = 8 * mb + 5 \<and> 0 \<le> mb \<and> mb \<le> 7000000"
      "uint (cb_at aData x y1) = 8 * mc + 5 \<and> 0 \<le> mc \<and> mc \<le> 7000000"
      "uint (cb_at aData x1 y1) = 8 * md + 5 \<and> 0 \<le> md \<and> md \<le> 7000000"
    using cb_at_shape [of aData x y] cb_at_shape [of aData x1 y]
      cb_at_shape [of aData x y1] cb_at_shape [of aData x1 y1] by blast
  then have "(cb_at aData x y div 4 + cb_at aData x1 y div 4
              + cb_at aData x y1 div 4 + cb_at aData x1 y1 div 4) div 225930
           = (cb_at aData x y + cb_at aData x1 y + cb_at aData x y1 + cb_at aData x1 y1)
               div 4 div 225930"
    by (intro quarter_sum_cb) auto
  then show ?thesis
    by (simp add: U420_at_def U420_spec_at_def Let_def xy)
qed

lemma U422_same: "U422_at aData w c r = U422_spec_at aData w c r"
proof -
  obtain x x1 where xy: "x = 2 * c" "x1 = x + booltoint (x + 1 < w)"
    by simp
  obtain ma mb where
      "uint (cb_at aData x r) = 8 * ma + 5 \<and> 0 \<le> ma \<and> ma \<le> 7000000"
      "uint (cb_at aData x1 r) = 8 * mb + 5 \<and> 0 \<le> mb \<and> mb \<le> 7000000"
    using cb_at_shape [of aData x r] cb_at_shape [of aData x1 r] by blast
  then have "(cb_at aData x r div 2 + cb_at aData x1 r div 2) div 225930
           = (cb_at aData x r + cb_at aData x1 r) div 2 div 225930"
    by (intro half_sum_cb) auto
  then show ?thesis
    by (simp add: U422_at_def U422_spec_at_def Let_def xy)
qed

lemma V422_same: "V422_at aData w c r = V422_spec_at aData w c r"
proof -
  obtain x x1 where xy: "x = 2 * c" "x1 = x + booltoint (x + 1 < w)"
    by simp
  obtain ma mb where
      "uint (cr_at aData x r) = 8 * ma + 3 \<and> 0 \<le> ma \<and> ma \<le> 11000000"
      "uint (cr_at aData x1 r) = 8 * mb + 3 \<and> 0 \<le> mb \<and> mb \<le> 11000000"
    using cr_at_shape [of aData x r] cr_at_shape [of aData x1 r] by blast
  then have "(cr_at aData x r div 2 + cr_at aData x1 r div 2) div 357510
           = (cr_at aData x r + cr_at aData x1 r) div 2 div 357510"
    by (intro half_sum_cr) auto
  then show ?thesis
    by (simp add: V422_at_def V422_spec_at_def Let_def xy)
qed

lemma U_same: "U_at f aData w h = U_spec_at f aData w h"
  by (simp add: fun_eq_iff U_at_def U_spec_at_def U420_same U422_same)

lemma V_same: "f \<noteq> YCbCrSubsampleRatio420 \<Longrightarrow> V_at f aData w h = V_spec_at f aData w h"
  by (simp add: fun_eq_iff V_at_def V_spec_at_def V422_same)

lemma green_block_facts:
  "in_range green_block" "Dx (Bounds green_block) = 2" "Dy (Bounds green_block) = 2"
  "V420_at green_block 2 2 0 0 = 34" "V420_spec_at green_block 2 2 0 0 = 35"
  by (simp_all add: in_range_def green_block_def Dx_def Dy_def V420_at_def V420_spec_at_def
        cr_at_def cr_term_def clamp_def booltoint_def)

lemma plane_isD:
  assumes "plane_is p W H vis f" "0 \<le> c" "c < W" "0 \<le> r" "r < H"
  shows "p ! nat (c + r * W) = (if vis c r then f c r else 0)"
  using assms by (simp add: plane_is_def)

text \<open>
  Claim C2 as stated fails for the V sample at 4:2:0, which is not the sum of the four
  contributions divided by 4: converting the 2 by 2 image \<open>green_block\<close>, the source
  writes 34 where that reading gives 35.
\<close>

theorem V420_sample_counterexample:
  "converted_V (ConvertFromRasterImage returning_Ptr YCbCrSubsampleRatio420 green_block
                  NewTheoraYUVbuffer) 8 0 0 = Some 34
   \<and> V420_spec_at green_block 2 2 0 0 = 35"
proof -
  have f: "supported YCbCrSubsampleRatio420" by (simp add: supported_def)
  from Convert_total [OF f green_block_facts(1), of NewTheoraYUVbuffer _ returning_Ptr]
  obtain v' log where run:
    "ConvertFromRasterImage returning_Ptr YCbCrSubsampleRatio420 green_block NewTheoraYUVbuffer
       = Inr (True, v', log)"
    by (auto simp: NewTheoraYUVbuffer_def)
  from Convert_Inr [OF f green_block_facts(1) run]
  have "plane_is (fvData v') 8 8 (chroma_visible YCbCrSubsampleRatio420 2 2)
          (V_at YCbCrSubsampleRatio420 green_block 2 2)"
    by (simp add: green_block_facts chroma_width_def chroma_height_def pad16_eq)
  from plane_isD [OF this, of 0 0] have "fvData v' ! nat (0 + 0 * 8) = 34"
    by (simp add: chroma_visible_def V_at_def green_block_facts)
  then show ?thesis
    by (simp add: converted_V_def run green_block_facts)
qed

text \<open>
  Claim C2, amended.  After every conversion of an image in range that returns true, the
  U plane holds at every chroma coordinate the image covers the byte the specification
  words: the sum of the block's contributions divided by 4 at 4:2:0 and by 2 at 4:2:2,
  the pixel's own contribution at 4:4:4, divided by 225930 and clamped; and zero
  elsewhere.  The V plane holds the byte the source computes, in which each contribution
  is divided by 4 or by 2 before the quotients are added, divided by 357510 and clamped.
  At 4:2:2 and 4:4:4 this is the byte the specification words; at 4:2:0 it is not always.
\<close>

theorem chroma_samples:
  assumes rng: "in_range aData"
    and run: "ConvertFromRasterImage Ptr chroma_format aData v = Inr (True, v', log)"
  shows "plane_is (fuData v')
           (chroma_width chroma_format (pad16 (Dx (Bounds aData))))
           (chroma_height chroma_format (pad16 (Dy (Bounds aData))))
           (chroma_visible chroma_format (Dx (Bounds aData)) (Dy (Bounds aData)))
           (U_spec_at chroma_format aData (Dx (Bounds aData)) (Dy (Bounds aData)))
       \<and> plane_is (fvData v')
           (chroma_width chroma_format (pad16 (Dx (Bounds aData))))
           (chroma_height chroma_format (pad16 (Dy (Bounds aData))))
           (chroma_visible chroma_format (Dx (Bounds aData)) (Dy (Bounds aData)))
           (V_at chroma_format aData (Dx (Bounds aData)) (Dy (Bounds aData)))
       \<and> (chroma_format \<noteq> YCbCrSubsampleRatio420 \<longrightarrow>
            V_at chroma_format aData (Dx (Bounds aData)) (Dy (Bounds aData))
              = V_spec_at chroma_format aData (Dx (Bounds aData)) (Dy (Bounds aData)))"
proof -
  note f = Convert_True_supported [OF run]
  from Convert_Inr [OF f rng run] show ?thesis
    by (simp add: U_same V_same)
qed

theorem chroma_samples_witness:
  "\<exists>v' log.
     ConvertFromRasterImage returning_Ptr YCbCrSubsampleRatio420 green_block NewTheoraYUVbuffer
       = Inr (True, v', log)
     \<and> fuData v' ! nat (0 + 0 * 8) = 112 \<and> fvData v' ! nat (0 + 0 * 8) = 34
     \<and> fuData v' ! nat (1 + 0 * 8) = 0"
proof -
  have f: "supported YCbCrSubsampleRatio420" by (simp add: supported_def)
  from Convert_total [OF f green_block_facts(1), of NewTheoraYUVbuffer _ returning_Ptr]
  obtain v' log where run:
    "ConvertFromRasterImage returning_Ptr YCbCrSubsampleRatio420 green_block NewTheoraYUVbuffer
       = Inr (True, v', log)"
    by (auto simp: NewTheoraYUVbuffer_def)
  have u: "U420_spec_at green_block 2 2 0 0 = 112"
    by (simp add: green_block_def U420_spec_at_def cb_at_def cb_term_def clamp_def booltoint_def)
  note t = chroma_samples [OF green_block_facts(1) run]
  from plane_isD [OF t [THEN conjunct1], of 0 0] plane_isD [OF t [THEN conjunct1], of 1 0]
       plane_isD [OF t [THEN conjunct2, THEN conjunct1], of 0 0]
  have "fuData v' ! nat (0 + 0 * 8) = 112 \<and> fvData v' ! nat (0 + 0 * 8) = 34
     \<and> fuData v' ! nat (1 + 0 * 8) = 0"
    by (simp add: green_block_facts chroma_width_def chroma_height_def pad16_eq
          chroma_visible_def V_at_def U_spec_at_def u)
  with run show ?thesis by blast
qed

end
